theory Spec2Isabelle
  imports Complex_Main
begin

section \<open>Data model (types.ts)\<close>

text \<open>
  The interfaces of \<^verbatim>\<open>types.ts\<close> become records, the string-literal unions become
  datatypes. A field that may be \<^verbatim>\<open>null\<close> or absent is an \<open>option\<close>. The score is the
  integer the output schema asks the provider for (\<^verbatim>\<open>Type.INTEGER\<close>).
\<close>

datatype HiringRecommendation = HIRE | MAYBE | REJECT

record PersonalityProfile =
  archetype :: string
  traits :: "string list"
  communicationStyle :: string
  cultureFit :: string

record AnalysisResult =
  candidateName :: string
  score :: int
  headline :: string
  summary :: string
  pros :: "string list"
  cons :: "string list"
  skillsGap :: "string list"
  personality :: PersonalityProfile
  recommendation :: HiringRecommendation
  reasoning :: string

record JobContext =
  title :: string
  description :: string

datatype FileType = Text | Image | Pdf

record UploadedFile =
  file_id :: string
  type :: FileType
  content :: string
  name :: string
  mimeType :: "string option"

datatype AnalysisStatus = idle | analyzing | completed | error

record BatchItem =
  item_file :: UploadedFile
  status :: AnalysisStatus
  result :: "AnalysisResult option"
  error_message :: "string option"

text \<open>
  \<^verbatim>\<open>saveSession\<close> also copies \<^verbatim>\<open>job.headcount\<close> into the session; \<^verbatim>\<open>JobContext\<close> has no
  such field, the value is always \<^verbatim>\<open>undefined\<close> and \<^verbatim>\<open>JSON.stringify\<close> drops it, so the
  record has no field for it.
\<close>

record HistorySession =
  session_id :: string
  timestamp :: nat
  jobTitle :: string
  jobDescription :: string
  items :: "BatchItem list"
  totalCandidates :: nat
  averageScore :: int

section \<open>The JavaScript environment\<close>

subsection \<open>Errors\<close>

text \<open>A thrown value is an error object; the code only ever reads its \<^verbatim>\<open>message\<close>.\<close>

datatype js_error =
    Error (message: string)
  | SyntaxError (message: string)
  | QuotaExceededError (message: string)

subsection \<open>Numbers\<close>

text \<open>
  \<^verbatim>\<open>Math.round\<close> rounds to the nearest integer, a tie towards \<open>+\<infinity>\<close>. Scores are
  integers, so their sum and its quotient are taken over the reals (the quotient is exact
  here, where a double is its nearest representable neighbour).
\<close>

definition Math_round :: "real \<Rightarrow> int" where
  "Math_round x = \<lfloor>x + 1 / 2\<rfloor>"

definition digit_char :: "nat \<Rightarrow> char" where
  "digit_char d = ''0123456789'' ! d"

text \<open>\<^verbatim>\<open>Number.prototype.toString\<close> on a non-negative integer: its decimal digits.\<close>

function Number_toString :: "nat \<Rightarrow> string" where
  "Number_toString n =
     (if n < 10 then [digit_char n]
      else Number_toString (n div 10) @ [digit_char (n mod 10)])"
  by pat_completeness auto
termination
  by (relation "measure (\<lambda>n. n)") auto

declare Number_toString.simps [simp del]

subsection \<open>localStorage\<close>

text \<open>
  The application uses three keys of \<^verbatim>\<open>localStorage\<close>. The two settings hold plain
  strings. The history key holds a text that is read back through \<^verbatim>\<open>JSON.parse\<close>, so a
  stored text is represented by what \<^verbatim>\<open>JSON.parse\<close> makes of it: \<open>Json_of h\<close> is the text
  \<^verbatim>\<open>JSON.stringify(h)\<close> of a session list \<open>h\<close>, and \<open>Not_json s\<close> is a string \<open>s\<close> outside
  the JSON grammar, on which \<^verbatim>\<open>JSON.parse\<close> throws a \<^verbatim>\<open>SyntaxError\<close>. The only writers of
  the key are \<^verbatim>\<open>saveSession\<close> and \<^verbatim>\<open>deleteSession\<close>, which write session lists; JSON
  texts of any other shape are outside this model.
\<close>

datatype json_text = Not_json string | Json_of "HistorySession list"

record localStorage =
  gemini_api_key :: "string option"
  gemini_temperature :: "string option"
  resume_ai_history_v1 :: "json_text option"

fun JSON_parse :: "json_text \<Rightarrow> js_error + HistorySession list" where
  "JSON_parse (Not_json s) = Inl (SyntaxError ''Unexpected token in JSON'')"
| "JSON_parse (Json_of h) = Inr h"

definition JSON_stringify :: "HistorySession list \<Rightarrow> json_text" where
  "JSON_stringify h = Json_of h"

text \<open>A string is falsy exactly when it is empty; a JSON text of an array never is.\<close>

fun truthy :: "json_text \<Rightarrow> bool" where
  "truthy (Not_json s) = (s \<noteq> [])"
| "truthy (Json_of h) = True"

subsection \<open>The world outside the program\<close>

text \<open>
  What the program changes outside its own variables: the storage, the console, and the
  requests it has sent to the model provider (oldest first).
\<close>

datatype console_entry =
    console_warn string
  | console_error string js_error

datatype schema = analysisSchema | interviewPlanSchema

text \<open>
  The prompts are fixed instruction texts around the job's title and description; a prompt
  is represented by the values spliced into it (for a text resume, its content is appended
  to the analysis prompt).
\<close>

datatype prompt =
    analysis_prompt string string "string option"
  | extraction_prompt

datatype part =
    inlineData string string
  | text_part prompt

datatype js_number = NaN | Num real | PosInfinity | NegInfinity

record request =
  model :: string
  parts :: "part list"
  responseSchema :: "schema option"
  temperature :: js_number
  thinkingBudget :: nat

record world =
  storage :: localStorage
  console :: "console_entry list"
  requests :: "request list"

text \<open>
  What the program cannot decide is a parameter of the model: whether the browser accepts
  a write (given the storage before and after it), and what the provider answers to the
  \<open>n\<close>-th request: it throws, or returns a response whose text may be absent. What
  \<^verbatim>\<open>JSON.parse\<close> makes of such a text (a syntax error, \<^verbatim>\<open>null\<close> or a result object) is a
  parameter as well, since the JSON grammar is not modelled.
\<close>

record env =
  quota_ok :: "localStorage \<Rightarrow> localStorage \<Rightarrow> bool"
  generateContent :: "nat \<Rightarrow> request \<Rightarrow> js_error + string option"
  JSON_parse_result :: "string \<Rightarrow> js_error + AnalysisResult option"

subsection \<open>Numbers as JavaScript has them\<close>

text \<open>
  A number is \<^verbatim>\<open>NaN\<close>, an infinity or a finite value, and \<open>Num x\<close> is the number whose exact
  value is \<open>x\<close>. Reading a decimal (\<^verbatim>\<open>parseFloat\<close>, the literal \<^verbatim>\<open>0.4\<close>) gives the value of the
  decimal here, where JavaScript gives the double nearest to it: the two agree on the
  decimals that are doubles (such as 0, 0.25 and 1); on the others JavaScript has the
  double beside the decimal, or zero or an infinity when the decimal is out of the range
  of the doubles. The clamp into \<open>[0, 1]\<close> and the way \<^verbatim>\<open>NaN\<close> goes through it do not depend
  on that rounding. \<^verbatim>\<open>Math.min\<close> and \<^verbatim>\<open>Math.max\<close> return \<^verbatim>\<open>NaN\<close> as soon as an argument
  is \<^verbatim>\<open>NaN\<close>.
\<close>

fun js_le :: "js_number \<Rightarrow> js_number \<Rightarrow> bool" where
  "js_le NaN _ = False"
| "js_le _ NaN = False"
| "js_le NegInfinity _ = True"
| "js_le _ PosInfinity = True"
| "js_le (Num x) (Num y) = (x \<le> y)"
| "js_le PosInfinity _ = False"
| "js_le _ NegInfinity = False"

definition isNaN :: "js_number \<Rightarrow> bool" where
  "isNaN v = (v = NaN)"

definition Math_min :: "js_number \<Rightarrow> js_number \<Rightarrow> js_number" where
  "Math_min a b = (if isNaN a \<or> isNaN b then NaN else if js_le a b then a else b)"

definition Math_max :: "js_number \<Rightarrow> js_number \<Rightarrow> js_number" where
  "Math_max a b = (if isNaN a \<or> isNaN b then NaN else if js_le a b then b else a)"

text \<open>
  A character of a string is a code unit below 256. Among these, the white space and line
  terminators that \<^verbatim>\<open>parseFloat\<close> and \<^verbatim>\<open>trim\<close> skip are the tab, the line feed, the
  vertical tab, the form feed, the carriage return, the space and the no-break space
  (U+00A0). The others (U+FEFF, U+2028 and the like) lie beyond the characters a string
  has here.
\<close>

definition is_space :: "char \<Rightarrow> bool" where
  "is_space c = (c \<in> set [CHR 0x09, CHR 0x0A, CHR 0x0B, CHR 0x0C, CHR 0x0D, CHR '' '', CHR 0xA0])"

definition is_digit :: "char \<Rightarrow> bool" where
  "is_digit c = (c \<in> set ''0123456789'')"

text \<open>The value of a digit is its position in the digit string.\<close>

definition digit_val :: "char \<Rightarrow> nat" where
  "digit_val c = length (takeWhile (\<lambda>d. d \<noteq> c) ''0123456789'')"

definition digits_val :: "string \<Rightarrow> nat" where
  "digits_val ds = foldl (\<lambda>acc c. 10 * acc + digit_val c) 0 ds"

definition split_sign :: "string \<Rightarrow> bool \<times> string" where
  "split_sign s =
     (case s of
        [] \<Rightarrow> (False, [])
      | c # r \<Rightarrow> if c = CHR ''-'' then (True, r) else if c = CHR ''+'' then (False, r) else (False, s))"

definition exponent_part :: "string \<Rightarrow> int" where
  "exponent_part s =
     (case s of
        [] \<Rightarrow> 0
      | c # r \<Rightarrow>
          if c = CHR ''e'' \<or> c = CHR ''E'' then
            (let (neg, ds) = split_sign r; d = takeWhile is_digit ds
             in if d = [] then 0 else if neg then - int (digits_val d) else int (digits_val d))
          else 0)"

text \<open>
  \<^verbatim>\<open>parseFloat\<close>: skip leading white space, then read the longest prefix that is a decimal
  literal (sign, \<^verbatim>\<open>Infinity\<close> or digits with an optional fraction and exponent); \<^verbatim>\<open>NaN\<close>
  when there is none.
\<close>

definition parseFloat :: "string \<Rightarrow> js_number" where
  "parseFloat s =
     (let (neg, u) = split_sign (dropWhile is_space s)
      in if take 8 u = ''Infinity'' then (if neg then NegInfinity else PosInfinity)
         else
           let ip = takeWhile is_digit u;
               r1 = dropWhile is_digit u;
               (fp, r2) = (case r1 of
                             [] \<Rightarrow> ([], [])
                           | c # r \<Rightarrow> if c = CHR ''.'' then (takeWhile is_digit r, dropWhile is_digit r)
                                      else ([], r1))
           in if ip = [] \<and> fp = [] then NaN
              else
                let m = real (digits_val (ip @ fp)) / 10 ^ length fp;
                    ex = exponent_part r2;
                    x = (if 0 \<le> ex then m * 10 ^ nat ex else m / 10 ^ nat (- ex))
                in Num (if neg then - x else x))"

text \<open>
  \<^verbatim>\<open>toFixed(1)\<close>: the integer \<open>n\<close> with \<open>n / 10\<close> nearest to the magnitude (the larger one at a
  tie), printed with one digit after the point. (From \<open>10\<^sup>2\<^sup>1\<close> on JavaScript switches to
  exponent notation, which is not reproduced.) The digit is that of the exact value: a
  decimal that ends in 5 after its first digit, such as 0.35, is read by JavaScript as a
  double just beside it and may be printed with the digit below (\<^verbatim>\<open>0.3\<close>), while its exact
  value is at the tie and is printed with the digit above (\<^verbatim>\<open>0.4\<close>). What is proved below
  about the text written to the storage is at the values 0 and 1, which are doubles.
\<close>

definition toFixed1 :: "js_number \<Rightarrow> string" where
  "toFixed1 v =
     (case v of
        NaN \<Rightarrow> ''NaN''
      | PosInfinity \<Rightarrow> ''Infinity''
      | NegInfinity \<Rightarrow> ''-Infinity''
      | Num x \<Rightarrow>
          let n = nat \<lfloor>\<bar>x\<bar> * 10 + 1 / 2\<rfloor>;
              s = Number_toString (n div 10) @ ''.'' @ [digit_char (n mod 10)]
          in if x < 0 then ''-'' @ s else s)"

definition trim :: "string \<Rightarrow> string" where
  "trim s = rev (dropWhile is_space (rev (dropWhile is_space s)))"

section \<open>History store (services/historyService.ts)\<close>

text \<open>
  \<^verbatim>\<open>localStorage.setItem(STORAGE_KEY, JSON.stringify(h))\<close>: the browser either
  stores the text or throws because the quota is exceeded, and then stores nothing.
\<close>

definition setItem_history :: "env \<Rightarrow> HistorySession list \<Rightarrow> world \<Rightarrow> js_error + world" where
  "setItem_history e h w =
     (let st = (storage w)\<lparr>resume_ai_history_v1 := Some (JSON_stringify h)\<rparr>
      in if quota_ok e (storage w) st then Inr (w\<lparr>storage := st\<rparr>)
         else Inl (QuotaExceededError ''The quota has been exceeded.''))"

definition getHistory :: "world \<Rightarrow> HistorySession list \<times> world" where
  "getHistory w =
     (case resume_ai_history_v1 (storage w) of
        None \<Rightarrow> ([], w)
      | Some json \<Rightarrow>
          if \<not> truthy json then ([], w)
          else (case JSON_parse json of
                  Inr h \<Rightarrow> (h, w)
                | Inl err \<Rightarrow>
                    ([], w\<lparr>console := console w @ [console_error ''Failed to load history:'' err]\<rparr>)))"

text \<open>The items that count for the statistics: completed, with a result.\<close>

definition completedItems :: "BatchItem list \<Rightarrow> BatchItem list" where
  "completedItems its = filter (\<lambda>i. status i = completed \<and> result i \<noteq> None) its"

definition totalScore :: "BatchItem list \<Rightarrow> int" where
  "totalScore its =
     foldl (\<lambda>acc curr. acc + (case result curr of None \<Rightarrow> 0 | Some r \<Rightarrow> score r))
       0 (completedItems its)"

text \<open>
  The session object; \<open>t1\<close> and \<open>t2\<close> are the two readings of \<^verbatim>\<open>Date.now()\<close>.
\<close>

definition new_session :: "nat \<Rightarrow> nat \<Rightarrow> JobContext \<Rightarrow> BatchItem list \<Rightarrow> HistorySession" where
  "new_session t1 t2 job its =
     \<lparr> session_id = Number_toString t1,
       timestamp = t2,
       jobTitle = title job,
       jobDescription = description job,
       items = its,
       totalCandidates = length its,
       averageScore = Math_round (real_of_int (totalScore its) / real (length (completedItems its))) \<rparr>"

text \<open>The fallback copy of a session: the content of every file removed.\<close>

definition lightSession :: "HistorySession \<Rightarrow> HistorySession" where
  "lightSession session =
     session\<lparr>items := map (\<lambda>item. item\<lparr>item_file := (item_file item)\<lparr>content := []\<rparr>\<rparr>) (items session)\<rparr>"

text \<open>The warning logged before the fallback write.\<close>

definition warned :: "world \<Rightarrow> world" where
  "warned w = w\<lparr>console := console w @
     [console_warn ''Storage quota exceeded, trying to save without file content backup...'']\<rparr>"

definition saveSession ::
  "env \<Rightarrow> nat \<Rightarrow> nat \<Rightarrow> JobContext \<Rightarrow> BatchItem list \<Rightarrow> world \<Rightarrow> HistorySession option \<times> world" where
  "saveSession e t1 t2 job its w =
     (if length (completedItems its) = 0 then (None, w)
      else
        let session = new_session t1 t2 job its;
            (existingHistory, w1) = getHistory w;
            newHistory = take 20 (session # existingHistory)
        in case setItem_history e newHistory w1 of
             Inr w2 \<Rightarrow> (Some session, w2)
           | Inl _ \<Rightarrow>
               let w2 = warned w1;
                   lightHistory = take 20 (lightSession session # existingHistory)
               in (case setItem_history e lightHistory w2 of
                     Inr w3 \<Rightarrow> (Some session, w3)
                   | Inl err \<Rightarrow>
                       (None, w2\<lparr>console := console w2 @ [console_error ''Failed to save history:'' err]\<rparr>)))"

definition clearHistory :: "world \<Rightarrow> world" where
  "clearHistory w = w\<lparr>storage := (storage w)\<lparr>resume_ai_history_v1 := None\<rparr>\<rparr>"

section \<open>Analysis client (services/geminiService.ts)\<close>

definition getApiKey :: "world \<Rightarrow> string option" where
  "getApiKey w = gemini_api_key (storage w)"

definition getTemperature :: "world \<Rightarrow> js_number" where
  "getTemperature w =
     (case gemini_temperature (storage w) of
        None \<Rightarrow> Num (4 / 10)
      | Some storedTemp \<Rightarrow>
          if storedTemp = [] then Num (4 / 10)
          else Math_max (Num 0) (Math_min (Num 1) (parseFloat storedTemp)))"

text \<open>The client is represented by the key it is built with.\<close>

definition getAIClient :: "world \<Rightarrow> js_error + string" where
  "getAIClient w =
     (case getApiKey w of
        None \<Rightarrow> Inl (Error ''API_KEY_MISSING'')
      | Some apiKey \<Rightarrow> if apiKey = [] then Inl (Error ''API_KEY_MISSING'') else Inr apiKey)"

definition inline_mimeType :: "UploadedFile \<Rightarrow> string" where
  "inline_mimeType f =
     (case mimeType f of
        Some m \<Rightarrow> if m \<noteq> [] then m else if type f = Pdf then ''application/pdf'' else ''image/png''
      | None \<Rightarrow> if type f = Pdf then ''application/pdf'' else ''image/png'')"

text \<open>
  Sending a request: it is appended to the log, and the provider's answer to it is the
  environment's. A thrown error is logged on the console under \<open>label\<close> and rethrown.
\<close>

definition send :: "env \<Rightarrow> request \<Rightarrow> world \<Rightarrow> (js_error + string option) \<times> world" where
  "send e req w = (generateContent e (length (requests w)) req, w\<lparr>requests := requests w @ [req]\<rparr>)"

definition rethrow :: "string \<Rightarrow> js_error \<Rightarrow> world \<Rightarrow> (js_error + 'a) \<times> world" where
  "rethrow label err w = (Inl err, w\<lparr>console := console w @ [console_error label err]\<rparr>)"

text \<open>
  The message of the error thrown for an answer without text is a Chinese sentence in
  the source (``the Gemini API returned no text data''); it is written in English here.
\<close>

definition analyzeResume ::
  "env \<Rightarrow> UploadedFile \<Rightarrow> JobContext \<Rightarrow> world \<Rightarrow> (js_error + AnalysisResult option) \<times> world" where
  "analyzeResume e f job w =
     (case getAIClient w of
        Inl err \<Rightarrow> (Inl err, w)
      | Inr ai \<Rightarrow>
          let temp = getTemperature w;
              ps = (if type f = Image \<or> type f = Pdf
                    then [inlineData (inline_mimeType f) (content f),
                          text_part (analysis_prompt (title job) (description job) None)]
                    else [text_part (analysis_prompt (title job) (description job) (Some (content f)))]);
              req = \<lparr> model = ''gemini-2.5-flash'', parts = ps, responseSchema = Some analysisSchema,
                      temperature = temp, thinkingBudget = 24576 \<rparr>;
              (answer, w1) = send e req w
          in (case answer of
                Inl err \<Rightarrow> rethrow ''Gemini Analysis Error:'' err w1
              | Inr None \<Rightarrow> rethrow ''Gemini Analysis Error:'' (Error ''Gemini API returned no text data'') w1
              | Inr (Some txt) \<Rightarrow>
                  if txt = [] then
                    rethrow ''Gemini Analysis Error:'' (Error ''Gemini API returned no text data'') w1
                  else (case JSON_parse_result e txt of
                          Inl err \<Rightarrow> rethrow ''Gemini Analysis Error:'' err w1
                        | Inr r \<Rightarrow> (Inr r, w1))))"

text \<open>
  The fallback text of \<^verbatim>\<open>extractResumeRawText\<close> is a Chinese sentence in the source (``no
  text could be extracted from the file''); it is written in English here.
\<close>

definition extractResumeRawText ::
  "env \<Rightarrow> UploadedFile \<Rightarrow> world \<Rightarrow> (js_error + string) \<times> world" where
  "extractResumeRawText e f w =
     (case getAIClient w of
        Inl err \<Rightarrow> (Inl err, w)
      | Inr ai \<Rightarrow>
          let temp = getTemperature w
          in if type f = Text then (Inr (content f), w)
             else
               let ps = [text_part extraction_prompt, inlineData (inline_mimeType f) (content f)];
                   req = \<lparr> model = ''gemini-2.5-flash'', parts = ps, responseSchema = None,
                           temperature = temp, thinkingBudget = 24576 \<rparr>;
                   (answer, w1) = send e req w
               in (case answer of
                     Inl err \<Rightarrow> rethrow ''Gemini Raw Text Extraction Error:'' err w1
                   | Inr None \<Rightarrow> (Inr ''No text could be extracted from the file.'', w1)
                   | Inr (Some txt) \<Rightarrow>
                       (Inr (if txt = [] then ''No text could be extracted from the file.'' else txt), w1)))"

section \<open>Settings dialog (ApiKeyModal)\<close>

record ApiKeyModal =
  apiKey :: string
  showKey :: bool
  modal_temperature :: js_number

definition handleTemperatureChange :: "string \<Rightarrow> ApiKeyModal \<Rightarrow> ApiKeyModal" where
  "handleTemperatureChange target_value m =
     (let v = parseFloat target_value
      in if \<not> isNaN v then m\<lparr>modal_temperature := Math_max (Num 0) (Math_min (Num 1) v)\<rparr> else m)"

definition setItem_api_key :: "env \<Rightarrow> string \<Rightarrow> world \<Rightarrow> js_error + world" where
  "setItem_api_key e v w =
     (let st = (storage w)\<lparr>gemini_api_key := Some v\<rparr>
      in if quota_ok e (storage w) st then Inr (w\<lparr>storage := st\<rparr>)
         else Inl (QuotaExceededError ''The quota has been exceeded.''))"

definition setItem_temperature :: "env \<Rightarrow> string \<Rightarrow> world \<Rightarrow> js_error + world" where
  "setItem_temperature e v w =
     (let st = (storage w)\<lparr>gemini_temperature := Some v\<rparr>
      in if quota_ok e (storage w) st then Inr (w\<lparr>storage := st\<rparr>)
         else Inl (QuotaExceededError ''The quota has been exceeded.''))"

text \<open>
  \<^verbatim>\<open>handleSave\<close> writes the key (or removes it) and then the temperature; it ends by
  calling the \<^verbatim>\<open>onClose\<close> callback of its parent, which is not part of it.
\<close>

definition handleSave :: "env \<Rightarrow> ApiKeyModal \<Rightarrow> world \<Rightarrow> js_error + world" where
  "handleSave e m w =
     (case (if trim (apiKey m) \<noteq> [] then setItem_api_key e (trim (apiKey m)) w
            else Inr (w\<lparr>storage := (storage w)\<lparr>gemini_api_key := None\<rparr>\<rparr>)) of
        Inl err \<Rightarrow> Inl err
      | Inr w1 \<Rightarrow> setItem_temperature e (toFixed1 (modal_temperature m)) w1)"


section \<open>Batch orchestrator (App, handleBatchAnalyze)\<close>

text \<open>
  The toasts carry Chinese sentences built around a file name, a count or an error
  message; a toast is represented by which sentence it is and the values spliced in.
  The timer that removes a toast after five seconds is not modelled: \<open>toasts\<close> is the list
  of toasts shown so far.
\<close>

datatype toast_message =
    need_api_key
  | need_input
  | started nat
  | item_done string
  | key_invalid
  | item_failed string string
  | all_done
  | saved_to_history

datatype toast_type = toast_success | toast_error | toast_warning

datatype view = input_view | list_view | detail_view

record app =
  files :: "UploadedFile list"
  jobContext :: JobContext
  batchItems :: "BatchItem list"
  isProcessing :: bool
  currentView :: view
  isSettingsOpen :: bool
  hasApiKey :: bool
  historySessions :: "HistorySession list"
  toasts :: "(toast_message \<times> toast_type) list"

text \<open>
  A run of \<^verbatim>\<open>handleBatchAnalyze\<close>: the component's state, the world, the local variable
  \<^verbatim>\<open>processedItems\<close>, and the successive values the run has given to \<^verbatim>\<open>batchItems\<close>
  (oldest first), which is what the user watches while the batch runs.
\<close>

record run =
  app :: app
  world :: world
  processedItems :: "BatchItem list"
  batch_trace :: "BatchItem list list"

definition setBatchItems :: "(BatchItem list \<Rightarrow> BatchItem list) \<Rightarrow> run \<Rightarrow> run" where
  "setBatchItems f r =
     (let b = f (batchItems (app r))
      in r\<lparr>app := (app r)\<lparr>batchItems := b\<rparr>, batch_trace := batch_trace r @ [b]\<rparr>)"

definition showToast :: "toast_message \<Rightarrow> toast_type \<Rightarrow> run \<Rightarrow> run" where
  "showToast msg ty r = r\<lparr>app := (app r)\<lparr>toasts := toasts (app r) @ [(msg, ty)]\<rparr>\<rparr>"

text \<open>
  The two updates \<^verbatim>\<open>prev.map(p => p.file.id === item.file.id ? ... : p)\<close> of the list on
  display: every entry with the id of \<open>item\<close> is marked as being analysed, or replaced.
\<close>

definition mark_analyzing :: "BatchItem \<Rightarrow> BatchItem list \<Rightarrow> BatchItem list" where
  "mark_analyzing item prev =
     map (\<lambda>p. if file_id (item_file p) = file_id (item_file item)
               then p\<lparr>status := analyzing\<rparr> else p) prev"

definition replace_item :: "BatchItem \<Rightarrow> BatchItem \<Rightarrow> BatchItem list \<Rightarrow> BatchItem list" where
  "replace_item item new_item prev =
     map (\<lambda>p. if file_id (item_file p) = file_id (item_file item) then new_item else p) prev"

text \<open>
  The body of the loop for the item at index \<open>i\<close>. The first component of the result tells
  whether the handler returned from inside the loop (the missing-credential exit).
  \<^verbatim>\<open>processedItems[i] = ...\<close> always writes inside the list, which is as long as
  \<^verbatim>\<open>initialItems\<close>.
\<close>

definition process_item :: "env \<Rightarrow> JobContext \<Rightarrow> BatchItem \<Rightarrow> nat \<Rightarrow> run \<Rightarrow> bool \<times> run" where
  "process_item e job item i r =
     (let r1 = setBatchItems (mark_analyzing item) r;
          (res, w1) = analyzeResume e (item_file item) job (world r1);
          r2 = r1\<lparr>world := w1\<rparr>
      in case res of
           Inr res_value \<Rightarrow>
             let updatedItem = item\<lparr>status := completed, result := res_value\<rparr>;
                 r3 = r2\<lparr>processedItems := (processedItems r2)[i := updatedItem]\<rparr>;
                 r4 = setBatchItems (replace_item item updatedItem) r3
             in (False, showToast (item_done (name (item_file item))) toast_success r4)
         | Inl err \<Rightarrow>
             if message err = ''API_KEY_MISSING'' then
               (True,
                showToast key_invalid toast_error
                  (r2\<lparr>app := (app r2)\<lparr>isProcessing := False, isSettingsOpen := True,
                                       hasApiKey := False\<rparr>\<rparr>))
             else
               let errorItem = item\<lparr>status := error, error_message := Some (message err)\<rparr>;
                   r3 = r2\<lparr>processedItems := (processedItems r2)[i := errorItem]\<rparr>;
                   r4 = setBatchItems (replace_item item errorItem) r3
               in (False, showToast (item_failed (name (item_file item)) (message err)) toast_error r4))"

text \<open>
  The loop \<^verbatim>\<open>for (let i = 0; i < initialItems.length; i++)\<close>, from index \<open>i\<close> on. The result
  is \<open>Some k\<close> when the handler returned while processing item \<open>k\<close>, and \<open>None\<close> when the
  loop ran to its end.
\<close>

function process_from :: "env \<Rightarrow> JobContext \<Rightarrow> BatchItem list \<Rightarrow> nat \<Rightarrow> run \<Rightarrow> nat option \<times> run" where
  "process_from e job initialItems i r =
     (if i < length initialItems then
        (case process_item e job (initialItems ! i) i r of
           (True, r') \<Rightarrow> (Some i, r')
         | (False, r') \<Rightarrow> process_from e job initialItems (i + 1) r')
      else (None, r))"
  by pat_completeness auto
termination
  by (relation "measure (\<lambda>(e, job, initialItems, i, r). length initialItems - i)") auto

declare process_from.simps [simp del]

text \<open>How a call of the handler ended.\<close>

datatype outcome =
    rejected
  | aborted nat
  | finished "HistorySession option"

definition initialItems_of :: "UploadedFile list \<Rightarrow> BatchItem list" where
  "initialItems_of fs =
     map (\<lambda>f. \<lparr> item_file = f, status = idle, result = None, error_message = None \<rparr>) fs"

text \<open>The state in which the loop starts: one idle item per file, shown as the list view.\<close>

definition start_run :: "app \<Rightarrow> world \<Rightarrow> run" where
  "start_run a w =
     (let r0 = \<lparr> app = a, world = w, processedItems = [], batch_trace = [] \<rparr>;
          initialItems = initialItems_of (files a);
          r1 = setBatchItems (\<lambda>_. initialItems) r0;
          r2 = r1\<lparr>app := (app r1)\<lparr>currentView := list_view, isProcessing := True\<rparr>\<rparr>;
          r3 = showToast (started (length (files a))) toast_success r2
      in r3\<lparr>processedItems := initialItems\<rparr>)"

text \<open>What follows the loop when it ran to its end: the session is saved.\<close>

definition finish_run :: "env \<Rightarrow> nat \<Rightarrow> nat \<Rightarrow> JobContext \<Rightarrow> run \<Rightarrow> outcome \<times> run" where
  "finish_run e t1 t2 job r5 =
     (let r6 = showToast all_done toast_success (r5\<lparr>app := (app r5)\<lparr>isProcessing := False\<rparr>\<rparr>);
          (saved, w1) = saveSession e t1 t2 job (processedItems r6) (world r6);
          r7 = r6\<lparr>world := w1\<rparr>
      in case saved of
           None \<Rightarrow> (finished None, r7)
         | Some s \<Rightarrow>
             (finished (Some s),
              showToast saved_to_history toast_success
                (r7\<lparr>app := (app r7)\<lparr>historySessions := s # historySessions (app r7)\<rparr>\<rparr>)))"

text \<open>
  The handler. The job it works with is the one of the state it was called in; \<open>t1\<close> and
  \<open>t2\<close> are the clock readings \<^verbatim>\<open>saveSession\<close> will take.
\<close>

definition handleBatchAnalyze :: "env \<Rightarrow> nat \<Rightarrow> nat \<Rightarrow> app \<Rightarrow> world \<Rightarrow> outcome \<times> run" where
  "handleBatchAnalyze e t1 t2 a w =
     (let r0 = \<lparr> app = a, world = w, processedItems = [], batch_trace = [] \<rparr>
      in if \<not> hasApiKey a then
           (rejected, showToast need_api_key toast_warning (r0\<lparr>app := a\<lparr>isSettingsOpen := True\<rparr>\<rparr>))
         else if length (files a) = 0 \<or> description (jobContext a) = [] then
           (rejected, showToast need_input toast_warning r0)
         else
           (case process_from e (jobContext a) (initialItems_of (files a)) 0 (start_run a w) of
              (Some k, r5) \<Rightarrow> (aborted k, r5)
            | (None, r5) \<Rightarrow> finish_run e t1 t2 (jobContext a) r5))"

section \<open>What a run keeps true\<close>

text \<open>An item is in a terminal state when its analysis has succeeded or failed.\<close>

definition terminal :: "BatchItem \<Rightarrow> bool" where
  "terminal p = (status p = completed \<or> status p = error)"

text \<open>
  A list of items is in sequential shape when, for some position \<open>k\<close>, everything before
  \<open>k\<close> is terminal and everything after \<open>k\<close> is idle: the item at \<open>k\<close> is the only one that
  can be under analysis.
\<close>

definition sequential :: "BatchItem list \<Rightarrow> bool" where
  "sequential s =
     (\<exists>k \<le> length s. (\<forall>j < k. terminal (s ! j)) \<and> (\<forall>j < length s. k < j \<longrightarrow> status (s ! j) = idle))"

text \<open>
  The state of the loop before it processes index \<open>i\<close> of the items made from the files
  \<open>fs\<close>: the first \<open>i\<close> items are terminal, the others untouched, the list on display agrees
  with the local one, and every list shown so far was one item per file in sequential shape.
\<close>

definition batch_inv :: "UploadedFile list \<Rightarrow> nat \<Rightarrow> run \<Rightarrow> bool" where
  "batch_inv fs i r =
     (length (processedItems r) = length fs \<and>
      map item_file (processedItems r) = fs \<and>
      (\<forall>j < i. j < length fs \<longrightarrow> terminal (processedItems r ! j)) \<and>
      (\<forall>j < length fs. i \<le> j \<longrightarrow> processedItems r ! j = initialItems_of fs ! j) \<and>
      batchItems (app r) = processedItems r \<and>
      (\<forall>s \<in> set (batch_trace r). map item_file s = fs \<and> sequential s))"

text \<open>
  Files may share an id: the ids are drawn at random when the files are chosen and nothing
  compares them. What the list on display keeps then is weaker: before index \<open>i\<close> is
  processed it has one entry per file, each with the id of its file, the first \<open>i\<close> entries
  terminal and the others idle or (when they share the id of an earlier file) terminal.
\<close>

definition batch_shape :: "UploadedFile list \<Rightarrow> nat \<Rightarrow> BatchItem list \<Rightarrow> bool" where
  "batch_shape fs i b =
     (map (\<lambda>p. file_id (item_file p)) b = map file_id fs \<and>
      (\<forall>j < length b. j < i \<longrightarrow> terminal (b ! j)) \<and>
      (\<forall>j < length b. i \<le> j \<longrightarrow> status (b ! j) = idle \<or> terminal (b ! j)))"

text \<open>
  The analyses of a run, told apart from the loop that calls them: the world in which the
  analysis of the file at index \<open>k\<close> starts is the one the analyses of the files before it
  have left, and \<open>analysis_of\<close> is what that analysis returns or throws.
\<close>

fun world_before :: "env \<Rightarrow> JobContext \<Rightarrow> UploadedFile list \<Rightarrow> world \<Rightarrow> nat \<Rightarrow> world" where
  "world_before e job fs w 0 = w"
| "world_before e job fs w (Suc k) = snd (analyzeResume e (fs ! k) job (world_before e job fs w k))"

definition analysis_of ::
  "env \<Rightarrow> JobContext \<Rightarrow> UploadedFile list \<Rightarrow> world \<Rightarrow> nat \<Rightarrow> js_error + AnalysisResult option" where
  "analysis_of e job fs w k = fst (analyzeResume e (fs ! k) job (world_before e job fs w k))"

text \<open>The failure the handler singles out: an error whose message is \<^verbatim>\<open>API_KEY_MISSING\<close>.\<close>

definition missing_credential :: "js_error + AnalysisResult option \<Rightarrow> bool" where
  "missing_credential res = (case res of Inl err \<Rightarrow> message err = ''API_KEY_MISSING'' | Inr _ \<Rightarrow> False)"

section \<open>Example data\<close>

text \<open>Concrete inputs, at which the theorems below are instantiated.\<close>

definition example_file :: UploadedFile where
  "example_file = \<lparr> file_id = ''f1'', type = Text, content = ''Ten years of compilers'',
                     name = ''ada.txt'', mimeType = None \<rparr>"

definition example_result :: "int \<Rightarrow> AnalysisResult" where
  "example_result sc =
     \<lparr> candidateName = ''Ada'', score = sc, headline = ''Compiler engineer'', summary = ''Strong'',
       pros = [''experience''], cons = [], skillsGap = [],
       personality = \<lparr> archetype = ''Analyst'', traits = [''precise''],
                       communicationStyle = ''direct'', cultureFit = ''good'' \<rparr>,
       recommendation = HIRE, reasoning = ''matches the description'' \<rparr>"

definition example_item :: "int \<Rightarrow> BatchItem" where
  "example_item sc = \<lparr> item_file = example_file, status = completed,
                        result = Some (example_result sc), error_message = None \<rparr>"

definition example_job :: JobContext where
  "example_job = \<lparr> title = ''Engineer'', description = ''Builds compilers'' \<rparr>"

definition example_session :: HistorySession where
  "example_session = \<lparr> session_id = ''1'', timestamp = 1, jobTitle = ''Engineer'',
                        jobDescription = ''Builds compilers'', items = [example_item 50],
                        totalCandidates = 1, averageScore = 50 \<rparr>"

definition empty_storage :: localStorage where
  "empty_storage = \<lparr> gemini_api_key = None, gemini_temperature = None, resume_ai_history_v1 = None \<rparr>"

definition world_of :: "localStorage \<Rightarrow> world" where
  "world_of st = \<lparr> storage = st, console = [], requests = [] \<rparr>"

text \<open>
  Three browsers: one with room for everything, one whose quota only admits sessions
  without file content, and one that is full.
\<close>

definition roomy_env :: env where
  "roomy_env = \<lparr> quota_ok = (\<lambda>_ _. True), generateContent = (\<lambda>_ _. Inr None),
                  JSON_parse_result = (\<lambda>_. Inr None) \<rparr>"

definition content_free :: "localStorage \<Rightarrow> bool" where
  "content_free st =
     (case resume_ai_history_v1 st of
        Some (Json_of h) \<Rightarrow> list_all (\<lambda>s. list_all (\<lambda>i. content (item_file i) = []) (items s)) h
      | _ \<Rightarrow> True)"

definition tight_env :: env where
  "tight_env = roomy_env\<lparr>quota_ok := (\<lambda>_ st. content_free st)\<rparr>"

definition full_env :: env where
  "full_env = roomy_env\<lparr>quota_ok := (\<lambda>_ _. False)\<rparr>"

definition full_history_world :: world where
  "full_history_world =
     world_of (empty_storage\<lparr>resume_ai_history_v1 := Some (Json_of (replicate 20 example_session))\<rparr>)"

definition broken_history_world :: world where
  "broken_history_world = world_of (empty_storage\<lparr>resume_ai_history_v1 := Some (Not_json ''[{'')\<rparr>)"

definition three_scores :: "BatchItem list" where
  "three_scores = [example_item 80, (example_item 0)\<lparr>status := error, result := None\<rparr>,
                   example_item 60, example_item 100]"

definition keyed_world :: world where
  "keyed_world = world_of (empty_storage\<lparr>gemini_api_key := Some ''AIzaSyExample''\<rparr>)"

definition invalid_temperature_world :: world where
  "invalid_temperature_world = world_of (empty_storage\<lparr>gemini_temperature := Some ''abc''\<rparr>)"

definition second_file :: UploadedFile where
  "second_file = \<lparr> file_id = ''f2'', type = Pdf, content = ''JVBERi0x'', name = ''bob.pdf'',
                    mimeType = Some ''application/pdf'' \<rparr>"

definition third_file :: UploadedFile where
  "third_file = \<lparr> file_id = ''f3'', type = Image, content = ''iVBORw0K'', name = ''eve.png'',
                   mimeType = None \<rparr>"

definition example_app :: "UploadedFile list \<Rightarrow> app" where
  "example_app fs =
     \<lparr> files = fs, jobContext = example_job, batchItems = [], isProcessing = False,
       currentView = input_view, isSettingsOpen = False, hasApiKey = True,
       historySessions = [], toasts = [] \<rparr>"

text \<open>
  A provider that answers the first request and is unavailable afterwards, and one that
  answers the first request and reports a missing key afterwards.
\<close>

definition flaky_env :: env where
  "flaky_env = roomy_env
     \<lparr>generateContent := (\<lambda>n req. if n = 0 then Inr (Some ''{...}'') else Inl (Error ''503 Service Unavailable'')),
      JSON_parse_result := (\<lambda>txt. Inr (Some (example_result 80)))\<rparr>"

definition revoked_env :: env where
  "revoked_env = flaky_env
     \<lparr>generateContent := (\<lambda>n req. if n = 0 then Inr (Some ''{...}'') else Inl (Error ''API_KEY_MISSING''))\<rparr>"

definition three_files :: "UploadedFile list" where
  "three_files = [example_file, second_file, third_file]"

definition two_files :: "UploadedFile list" where
  "two_files = [example_file, second_file]"

text \<open>A second text file that has the id of the first, and the list of the two.\<close>

definition twin_file :: UploadedFile where
  "twin_file = \<lparr> file_id = ''f1'', type = Text, content = ''Five years of databases'',
                  name = ''bob.txt'', mimeType = None \<rparr>"

definition twin_files :: "UploadedFile list" where
  "twin_files = [example_file, twin_file]"


section \<open>Properties of the history store\<close>

lemma getHistory_storage: "storage (snd (getHistory w)) = storage w"
  by (simp add: getHistory_def split: option.splits sum.splits)

lemma getHistory_requests: "requests (snd (getHistory w)) = requests w"
  by (simp add: getHistory_def split: option.splits sum.splits)

lemma getHistory_fst_cong:
  "storage w = storage w' \<Longrightarrow> fst (getHistory w) = fst (getHistory w')"
  by (simp add: getHistory_def split: option.splits sum.splits)

lemma getHistory_Json_of:
  "resume_ai_history_v1 (storage w) = Some (Json_of h) \<Longrightarrow> fst (getHistory w) = h"
  by (simp add: getHistory_def)

lemma completedItems_empty_iff:
  "(completedItems its = []) = (\<forall>i \<in> set its. \<not> (status i = completed \<and> result i \<noteq> None))"
  by (auto simp: completedItems_def filter_empty_conv)

lemma setItem_history_Inr:
  "setItem_history e h w = Inr w' \<Longrightarrow>
     storage w' = (storage w)\<lparr>resume_ai_history_v1 := Some (Json_of h)\<rparr> \<and>
     console w' = console w \<and> requests w' = requests w"
  by (auto simp: setItem_history_def JSON_stringify_def Let_def split: if_splits)

lemma setItem_history_Inr_read:
  "setItem_history e h w = Inr w' \<Longrightarrow> fst (getHistory w') = h"
  by (auto simp: setItem_history_def JSON_stringify_def Let_def getHistory_def split: if_splits)

lemma saveSession_full:
  assumes "completedItems its \<noteq> []"
    and "setItem_history e (take 20 (new_session t1 t2 job its # fst (getHistory w))) (snd (getHistory w)) = Inr w2"
  shows "saveSession e t1 t2 job its w = (Some (new_session t1 t2 job its), w2)"
  using assms by (simp add: saveSession_def Let_def case_prod_beta)

lemma saveSession_light:
  assumes "completedItems its \<noteq> []"
    and "setItem_history e (take 20 (new_session t1 t2 job its # fst (getHistory w))) (snd (getHistory w)) = Inl err"
    and "setItem_history e (take 20 (lightSession (new_session t1 t2 job its) # fst (getHistory w)))
           (warned (snd (getHistory w))) = Inr w3"
  shows "saveSession e t1 t2 job its w = (Some (new_session t1 t2 job its), w3)"
  using assms by (simp add: saveSession_def Let_def case_prod_beta warned_def)

lemma saveSession_failed:
  assumes "completedItems its \<noteq> []"
    and "setItem_history e (take 20 (new_session t1 t2 job its # fst (getHistory w))) (snd (getHistory w)) = Inl err"
    and "setItem_history e (take 20 (lightSession (new_session t1 t2 job its) # fst (getHistory w)))
           (warned (snd (getHistory w))) = Inl err'"
  shows "saveSession e t1 t2 job its w =
           (None, (warned (snd (getHistory w)))\<lparr>console := console (warned (snd (getHistory w))) @
              [console_error ''Failed to save history:'' err']\<rparr>)"
  using assms by (simp add: saveSession_def Let_def case_prod_beta warned_def)

lemma saveSession_Some_session:
  "saveSession e t1 t2 job its w = (Some s, w') \<Longrightarrow>
     s = new_session t1 t2 job its \<and> completedItems its \<noteq> []"
  by (auto simp: saveSession_def Let_def case_prod_beta split: if_splits sum.splits)

lemma saveSession_Some_persisted:
  assumes "saveSession e t1 t2 job its w = (Some s, w')"
  shows "\<exists>s'. (s' = s \<or> s' = lightSession s) \<and>
           storage w' = (storage w)\<lparr>resume_ai_history_v1 := Some (Json_of (take 20 (s' # fst (getHistory w))))\<rparr>"
  using assms
  by (auto simp: saveSession_def Let_def case_prod_beta getHistory_storage warned_def
      split: if_splits sum.splits dest!: setItem_history_Inr)

lemma foldl_add_sum_list:
  "foldl (\<lambda>acc c. acc + f c) a xs = (a::int) + sum_list (map f xs)"
  by (induction xs arbitrary: a) simp_all

lemma totalScore_sum_list:
  "totalScore its = sum_list (map (\<lambda>i. score (the (result i))) (completedItems its))"
proof -
  have "sum_list (map (\<lambda>curr. case result curr of None \<Rightarrow> 0 | Some r \<Rightarrow> score r) (completedItems its))
        = sum_list (map (\<lambda>i. score (the (result i))) (completedItems its))"
    by (rule arg_cong [where f = sum_list], rule map_cong) (auto simp: completedItems_def)
  then show ?thesis
    by (simp only: totalScore_def foldl_add_sum_list add_0)
qed

lemma Math_round_close: "\<bar>real_of_int (Math_round x) - x\<bar> \<le> 1 / 2"
  unfolding Math_round_def by linarith

lemma saveSession_first_write_ok:
  assumes "completedItems its \<noteq> []"
    and "quota_ok e (storage w)
           ((storage w)\<lparr>resume_ai_history_v1 :=
              Some (Json_of (take 20 (new_session t1 t2 job its # fst (getHistory w))))\<rparr>)"
  shows "\<exists>w2. saveSession e t1 t2 job its w = (Some (new_session t1 t2 job its), w2)"
proof -
  have "\<exists>w2. setItem_history e (take 20 (new_session t1 t2 job its # fst (getHistory w))) (snd (getHistory w)) = Inr w2"
    using assms(2) by (simp add: setItem_history_def JSON_stringify_def getHistory_storage)
  then show ?thesis using saveSession_full [OF assms(1)] by blast
qed

lemma completedItems_example: "completedItems [example_item sc] \<noteq> []"
  by (simp add: completedItems_def example_item_def)

text \<open>
  Claim C10. Whatever the history key holds, \<^verbatim>\<open>getHistory\<close> returns a list: when the key is
  absent, or holds a string that is not JSON (the parse error is caught and logged), the
  list is empty, and the storage is left as it was.
\<close>

theorem getHistory_never_raises:
  "resume_ai_history_v1 (storage w) = None \<or> (\<exists>s. resume_ai_history_v1 (storage w) = Some (Not_json s))
   \<Longrightarrow> fst (getHistory w) = [] \<and> storage (snd (getHistory w)) = storage w"
  by (auto simp: getHistory_def)

theorem getHistory_never_raises_witness:
  "resume_ai_history_v1 (storage broken_history_world) = Some (Not_json ''[{'') \<and>
   fst (getHistory broken_history_world) = [] \<and>
   storage (snd (getHistory broken_history_world)) = storage broken_history_world \<and>
   resume_ai_history_v1 (storage (world_of empty_storage)) = None \<and>
   fst (getHistory (world_of empty_storage)) = []"
proof -
  have h: "resume_ai_history_v1 (storage broken_history_world) = Some (Not_json ''[{'')"
    by (simp add: broken_history_world_def world_of_def empty_storage_def)
  then have b: "resume_ai_history_v1 (storage broken_history_world) = None \<or>
      (\<exists>s. resume_ai_history_v1 (storage broken_history_world) = Some (Not_json s))" by blast
  have n: "resume_ai_history_v1 (storage (world_of empty_storage)) = None"
    by (simp add: world_of_def empty_storage_def)
  then have a: "resume_ai_history_v1 (storage (world_of empty_storage)) = None \<or>
      (\<exists>s. resume_ai_history_v1 (storage (world_of empty_storage)) = Some (Not_json s))" by blast
  from getHistory_never_raises [OF b] getHistory_never_raises [OF a] h n show ?thesis by blast
qed

text \<open>
  Claim C4. When no item is completed with a result, \<^verbatim>\<open>saveSession\<close> returns \<^verbatim>\<open>null\<close> and
  changes nothing: neither the storage nor the console.
\<close>

theorem saveSession_noop:
  "\<forall>i \<in> set its. \<not> (status i = completed \<and> result i \<noteq> None)
   \<Longrightarrow> saveSession e t1 t2 job its w = (None, w)"
  using completedItems_empty_iff [of its] by (simp add: saveSession_def)

theorem saveSession_noop_witness:
  "status ((example_item 70)\<lparr>status := error\<rparr>) = error \<and>
   result ((example_item 0)\<lparr>result := None\<rparr>) = None \<and>
   saveSession roomy_env 1 2 example_job
     [(example_item 70)\<lparr>status := error\<rparr>, (example_item 0)\<lparr>result := None\<rparr>] full_history_world
   = (None, full_history_world)"
proof -
  have h: "\<forall>i \<in> set [(example_item 70)\<lparr>status := error\<rparr>, (example_item 0)\<lparr>result := None\<rparr>].
      \<not> (status i = completed \<and> result i \<noteq> None)"
    by (simp add: example_item_def)
  from saveSession_noop [OF h] show ?thesis by simp
qed

text \<open>
  Claim C5. After a save that returned a session, reading the history back gives the new session
  (as returned, or its content-free copy when the first write was refused) followed by the
  sessions stored before, cut to 20 entries; when 20 sessions were stored, 20 remain, the
  new one first and the last (oldest) one gone.
\<close>

theorem saveSession_newest_first_capped:
  assumes "saveSession e t1 t2 job its w = (Some s, w')"
  shows "\<exists>s'. (s' = s \<or> s' = lightSession s) \<and>
           fst (getHistory w') = take 20 (s' # fst (getHistory w)) \<and>
           length (fst (getHistory w')) \<le> 20 \<and>
           (length (fst (getHistory w)) = 20 \<longrightarrow>
              length (fst (getHistory w')) = 20 \<and>
              fst (getHistory w') = s' # butlast (fst (getHistory w)))"
proof -
  from saveSession_Some_persisted [OF assms] obtain s' where
    s': "s' = s \<or> s' = lightSession s" and
    st: "storage w' = (storage w)\<lparr>resume_ai_history_v1 := Some (Json_of (take 20 (s' # fst (getHistory w))))\<rparr>"
    by blast
  from st have rd: "fst (getHistory w') = take 20 (s' # fst (getHistory w))"
    by (intro getHistory_Json_of) simp
  have "length (fst (getHistory w)) = 20 \<longrightarrow>
          length (fst (getHistory w')) = 20 \<and> fst (getHistory w') = s' # butlast (fst (getHistory w))"
    using rd by (auto simp: butlast_conv_take)
  moreover have "length (fst (getHistory w')) \<le> 20"
    using rd by simp
  ultimately show ?thesis using s' rd by blast
qed

theorem saveSession_newest_first_capped_witness:
  "fst (saveSession roomy_env 1 2 example_job [example_item 80] full_history_world)
     = Some (new_session 1 2 example_job [example_item 80]) \<and>
   length (fst (getHistory full_history_world)) = 20 \<and>
   length (fst (getHistory (snd (saveSession roomy_env 1 2 example_job [example_item 80] full_history_world)))) = 20 \<and>
   hd (fst (getHistory (snd (saveSession roomy_env 1 2 example_job [example_item 80] full_history_world))))
     \<in> {new_session 1 2 example_job [example_item 80],
        lightSession (new_session 1 2 example_job [example_item 80])} \<and>
   tl (fst (getHistory (snd (saveSession roomy_env 1 2 example_job [example_item 80] full_history_world))))
     = replicate 19 example_session"
proof -
  have "quota_ok roomy_env (storage full_history_world)
           ((storage full_history_world)\<lparr>resume_ai_history_v1 :=
              Some (Json_of (take 20 (new_session 1 2 example_job [example_item 80] # fst (getHistory full_history_world))))\<rparr>)"
    by (simp add: roomy_env_def)
  from saveSession_first_write_ok [OF completedItems_example this]
  obtain w2 where h: "saveSession roomy_env 1 2 example_job [example_item 80] full_history_world
      = (Some (new_session 1 2 example_job [example_item 80]), w2)" by blast
  have old: "fst (getHistory full_history_world) = replicate 20 example_session"
    by (rule getHistory_Json_of) (simp add: full_history_world_def world_of_def)
  have bl: "butlast (replicate 20 example_session) = replicate 19 example_session"
    by (simp add: butlast_conv_take)
  from saveSession_newest_first_capped [OF h] show ?thesis
    using h old bl by auto
qed

text \<open>
  Claim C6. The \<^verbatim>\<open>averageScore\<close> of a saved session is \<^verbatim>\<open>Math.round\<close> of the mean of the scores of
  exactly the items that are completed with a result; it lies within one half of that
  mean, and is 80 when those scores are 80, 60 and 100.
\<close>

theorem averageScore_rounded_mean:
  assumes "saveSession e t1 t2 job its w = (Some s, w')"
  shows "let scores = map (\<lambda>i. score (the (result i)))
                        (filter (\<lambda>i. status i = completed \<and> result i \<noteq> None) its)
         in scores \<noteq> [] \<and>
            averageScore s = Math_round (real_of_int (sum_list scores) / real (length scores)) \<and>
            \<bar>real_of_int (averageScore s) - real_of_int (sum_list scores) / real (length scores)\<bar> \<le> 1 / 2 \<and>
            (scores = [80, 60, 100] \<longrightarrow> averageScore s = 80)"
proof -
  define scores where
    "scores = map (\<lambda>i. score (the (result i))) (filter (\<lambda>i. status i = completed \<and> result i \<noteq> None) its)"
  from saveSession_Some_session [OF assms]
  have s: "s = new_session t1 t2 job its" and ne: "completedItems its \<noteq> []" by simp_all
  have sc: "scores = map (\<lambda>i. score (the (result i))) (completedItems its)"
    by (simp add: scores_def completedItems_def)
  have len: "length scores = length (completedItems its)" by (simp add: sc)
  have avg: "averageScore s = Math_round (real_of_int (sum_list scores) / real (length scores))"
    by (simp add: s new_session_def totalScore_sum_list sc)
  have close: "\<bar>real_of_int (averageScore s) - real_of_int (sum_list scores) / real (length scores)\<bar> \<le> 1 / 2"
    unfolding avg by (rule Math_round_close)
  have ex: "scores = [80, 60, 100] \<longrightarrow> averageScore s = 80"
    unfolding avg by (simp add: Math_round_def)
  have "scores \<noteq> []" using ne by (simp add: sc)
  with avg close ex show ?thesis
    unfolding scores_def [symmetric] Let_def by blast
qed

theorem averageScore_rounded_mean_witness:
  "fst (saveSession roomy_env 1 2 example_job three_scores (world_of empty_storage))
     = Some (new_session 1 2 example_job three_scores) \<and>
   map (\<lambda>i. score (the (result i))) (filter (\<lambda>i. status i = completed \<and> result i \<noteq> None) three_scores)
     = [80, 60, 100] \<and>
   averageScore (new_session 1 2 example_job three_scores) = 80"
proof -
  have ne: "completedItems three_scores \<noteq> []"
    by (simp add: completedItems_def three_scores_def example_item_def)
  have "quota_ok roomy_env (storage (world_of empty_storage))
           ((storage (world_of empty_storage))\<lparr>resume_ai_history_v1 :=
              Some (Json_of (take 20 (new_session 1 2 example_job three_scores # fst (getHistory (world_of empty_storage)))))\<rparr>)"
    by (simp add: roomy_env_def)
  from saveSession_first_write_ok [OF ne this]
  obtain w2 where h: "saveSession roomy_env 1 2 example_job three_scores (world_of empty_storage)
      = (Some (new_session 1 2 example_job three_scores), w2)" by blast
  have sc: "map (\<lambda>i. score (the (result i))) (filter (\<lambda>i. status i = completed \<and> result i \<noteq> None) three_scores)
     = [80, 60, 100]"
    by (simp add: three_scores_def example_item_def example_result_def)
  from averageScore_rounded_mean [OF h] show ?thesis
    using h sc by (simp add: Let_def)
qed

text \<open>
  Claim C3. When the browser refuses the first write of a session, \<^verbatim>\<open>saveSession\<close> writes
  again with the content of every item's file blanked and every other field kept. If that
  write is accepted the session is returned and the content-free copy is what is read
  back; if it is refused too, the caller gets \<^verbatim>\<open>null\<close>, the error is logged, and the stored
  history is what it was.
\<close>

theorem saveSession_degrades_on_quota:
  assumes "\<exists>i \<in> set its. status i = completed \<and> result i \<noteq> None"
    and "\<not> quota_ok e (storage w)
            ((storage w)\<lparr>resume_ai_history_v1 :=
               Some (Json_of (take 20 (new_session t1 t2 job its # fst (getHistory w))))\<rparr>)"
  shows "let session = new_session t1 t2 job its;
             light = lightSession session;
             st = (storage w)\<lparr>resume_ai_history_v1 := Some (Json_of (take 20 (light # fst (getHistory w))))\<rparr>;
             saved = fst (saveSession e t1 t2 job its w);
             w' = snd (saveSession e t1 t2 job its w)
         in light\<lparr>items := its\<rparr> = session \<and>
            length (items light) = length its \<and>
            (\<forall>j < length its.
               content (item_file (items light ! j)) = [] \<and>
               (item_file (items light ! j))\<lparr>content := content (item_file (its ! j))\<rparr> = item_file (its ! j) \<and>
               (items light ! j)\<lparr>item_file := item_file (its ! j)\<rparr> = its ! j) \<and>
            (quota_ok e (storage w) st \<longrightarrow>
               saved = Some session \<and> storage w' = st \<and>
               fst (getHistory w') = take 20 (light # fst (getHistory w))) \<and>
            (\<not> quota_ok e (storage w) st \<longrightarrow>
               saved = None \<and> storage w' = storage w \<and>
               fst (getHistory w') = fst (getHistory w) \<and>
               (\<exists>err. last (console w') = console_error ''Failed to save history:'' err))"
proof -
  define session where "session = new_session t1 t2 job its"
  define light where "light = lightSession session"
  define st where
    "st = (storage w)\<lparr>resume_ai_history_v1 := Some (Json_of (take 20 (light # fst (getHistory w))))\<rparr>"
  have ne: "completedItems its \<noteq> []"
    using assms(1) completedItems_empty_iff [of its] by blast
  have its: "items session = its" by (simp add: session_def new_session_def)
  have first: "\<exists>err. setItem_history e (take 20 (session # fst (getHistory w))) (snd (getHistory w)) = Inl err"
    using assms(2) by (simp add: setItem_history_def JSON_stringify_def getHistory_storage session_def)
  have a: "light\<lparr>items := its\<rparr> = session"
    using its by (simp add: light_def lightSession_def)
  have b: "length (items light) = length its"
    using its by (simp add: light_def lightSession_def)
  have c: "\<forall>j < length its.
               content (item_file (items light ! j)) = [] \<and>
               (item_file (items light ! j))\<lparr>content := content (item_file (its ! j))\<rparr> = item_file (its ! j) \<and>
               (items light ! j)\<lparr>item_file := item_file (its ! j)\<rparr> = its ! j"
    using its by (simp add: light_def lightSession_def)
  have d': "quota_ok e (storage w) st \<longrightarrow>
      fst (saveSession e t1 t2 job its w) = Some session \<and>
      storage (snd (saveSession e t1 t2 job its w)) = st \<and>
      fst (getHistory (snd (saveSession e t1 t2 job its w))) = take 20 (light # fst (getHistory w))"
  proof
    assume q: "quota_ok e (storage w) st"
    from first obtain err where
      f: "setItem_history e (take 20 (session # fst (getHistory w))) (snd (getHistory w)) = Inl err" ..
    have "\<exists>w3. setItem_history e (take 20 (light # fst (getHistory w))) (warned (snd (getHistory w))) = Inr w3"
      using q by (simp add: setItem_history_def JSON_stringify_def getHistory_storage st_def warned_def)
    then obtain w3 where
      g: "setItem_history e (take 20 (light # fst (getHistory w))) (warned (snd (getHistory w))) = Inr w3" ..
    have r: "saveSession e t1 t2 job its w = (Some session, w3)"
      using saveSession_light [OF ne] f g unfolding session_def light_def by blast
    have "storage w3 = st"
      using setItem_history_Inr [OF g] by (simp add: st_def warned_def getHistory_storage)
    moreover have "fst (getHistory w3) = take 20 (light # fst (getHistory w))"
      using setItem_history_Inr_read [OF g] .
    ultimately show "fst (saveSession e t1 t2 job its w) = Some session \<and>
      storage (snd (saveSession e t1 t2 job its w)) = st \<and>
      fst (getHistory (snd (saveSession e t1 t2 job its w))) = take 20 (light # fst (getHistory w))"
      by (simp add: r)
  qed
  have e': "\<not> quota_ok e (storage w) st \<longrightarrow>
      fst (saveSession e t1 t2 job its w) = None \<and>
      storage (snd (saveSession e t1 t2 job its w)) = storage w \<and>
      fst (getHistory (snd (saveSession e t1 t2 job its w))) = fst (getHistory w) \<and>
      (\<exists>err. last (console (snd (saveSession e t1 t2 job its w))) = console_error ''Failed to save history:'' err)"
  proof
    assume q: "\<not> quota_ok e (storage w) st"
    from first obtain err where
      f: "setItem_history e (take 20 (session # fst (getHistory w))) (snd (getHistory w)) = Inl err" ..
    have "\<exists>err'. setItem_history e (take 20 (light # fst (getHistory w))) (warned (snd (getHistory w))) = Inl err'"
      using q by (simp add: setItem_history_def JSON_stringify_def getHistory_storage st_def warned_def)
    then obtain err' where
      g: "setItem_history e (take 20 (light # fst (getHistory w))) (warned (snd (getHistory w))) = Inl err'" ..
    have r: "saveSession e t1 t2 job its w =
           (None, (warned (snd (getHistory w)))\<lparr>console := console (warned (snd (getHistory w))) @
              [console_error ''Failed to save history:'' err']\<rparr>)"
      using saveSession_failed [OF ne] f g unfolding session_def light_def by blast
    have s: "storage (snd (saveSession e t1 t2 job its w)) = storage w"
      by (simp add: r warned_def getHistory_storage)
    show "fst (saveSession e t1 t2 job its w) = None \<and>
      storage (snd (saveSession e t1 t2 job its w)) = storage w \<and>
      fst (getHistory (snd (saveSession e t1 t2 job its w))) = fst (getHistory w) \<and>
      (\<exists>err. last (console (snd (saveSession e t1 t2 job its w))) = console_error ''Failed to save history:'' err)"
      using s getHistory_fst_cong [OF s] by (simp add: r)
  qed
  from a b c d' e' show ?thesis
    unfolding Let_def session_def [symmetric] light_def [symmetric] st_def [symmetric] by blast
qed

theorem saveSession_degrades_on_quota_witness:
  "(\<exists>i \<in> set [example_item 80]. status i = completed \<and> result i \<noteq> None) \<and>
   \<not> quota_ok tight_env (storage (world_of empty_storage))
       ((storage (world_of empty_storage))\<lparr>resume_ai_history_v1 :=
          Some (Json_of (take 20 (new_session 1 2 example_job [example_item 80]
                                  # fst (getHistory (world_of empty_storage)))))\<rparr>) \<and>
   fst (saveSession tight_env 1 2 example_job [example_item 80] (world_of empty_storage))
     = Some (new_session 1 2 example_job [example_item 80]) \<and>
   fst (getHistory (snd (saveSession tight_env 1 2 example_job [example_item 80] (world_of empty_storage))))
     = [lightSession (new_session 1 2 example_job [example_item 80])] \<and>
   fst (saveSession full_env 1 2 example_job [example_item 80] (world_of empty_storage)) = None \<and>
   storage (snd (saveSession full_env 1 2 example_job [example_item 80] (world_of empty_storage)))
     = empty_storage"
proof -
  have some: "\<exists>i \<in> set [example_item 80]. status i = completed \<and> result i \<noteq> None"
    by (simp add: example_item_def)
  have old: "fst (getHistory (world_of empty_storage)) = []"
    by (simp add: getHistory_def world_of_def empty_storage_def)
  have tight1: "\<not> quota_ok tight_env (storage (world_of empty_storage))
       ((storage (world_of empty_storage))\<lparr>resume_ai_history_v1 :=
          Some (Json_of (take 20 (new_session 1 2 example_job [example_item 80]
                                  # fst (getHistory (world_of empty_storage)))))\<rparr>)"
    by (simp add: old tight_env_def roomy_env_def content_free_def new_session_def
        example_item_def example_file_def)
  have tight2: "quota_ok tight_env (storage (world_of empty_storage))
       ((storage (world_of empty_storage))\<lparr>resume_ai_history_v1 :=
          Some (Json_of (take 20 (lightSession (new_session 1 2 example_job [example_item 80])
                                  # fst (getHistory (world_of empty_storage)))))\<rparr>)"
    by (simp add: old tight_env_def roomy_env_def content_free_def new_session_def lightSession_def)
  have full1: "\<not> quota_ok full_env (storage (world_of empty_storage))
       ((storage (world_of empty_storage))\<lparr>resume_ai_history_v1 :=
          Some (Json_of (take 20 (new_session 1 2 example_job [example_item 80]
                                  # fst (getHistory (world_of empty_storage)))))\<rparr>)"
    by (simp add: full_env_def roomy_env_def)
  have full2: "\<not> quota_ok full_env (storage (world_of empty_storage))
       ((storage (world_of empty_storage))\<lparr>resume_ai_history_v1 :=
          Some (Json_of (take 20 (lightSession (new_session 1 2 example_job [example_item 80])
                                  # fst (getHistory (world_of empty_storage)))))\<rparr>)"
    by (simp add: full_env_def roomy_env_def)
  have st: "storage (world_of empty_storage) = empty_storage"
    by (simp add: world_of_def)
  from saveSession_degrades_on_quota [OF some tight1] tight2
  have a: "fst (saveSession tight_env 1 2 example_job [example_item 80] (world_of empty_storage))
             = Some (new_session 1 2 example_job [example_item 80]) \<and>
           fst (getHistory (snd (saveSession tight_env 1 2 example_job [example_item 80] (world_of empty_storage))))
             = [lightSession (new_session 1 2 example_job [example_item 80])]"
    unfolding Let_def old by simp
  from saveSession_degrades_on_quota [OF some full1] full2
  have b: "fst (saveSession full_env 1 2 example_job [example_item 80] (world_of empty_storage)) = None \<and>
           storage (snd (saveSession full_env 1 2 example_job [example_item 80] (world_of empty_storage)))
             = empty_storage"
    unfolding Let_def st by blast
  from some tight1 a b show ?thesis by blast
qed

section \<open>Properties of the analysis client and the settings\<close>

text \<open>
  Claim C7, as amended. For a text file \<^verbatim>\<open>extractResumeRawText\<close> sends no request to the
  provider and changes nothing; it returns the file's content unchanged when an API key is
  stored, and fails with \<^verbatim>\<open>API_KEY_MISSING\<close> when none is, because the client is built
  before the file's type is looked at.
\<close>

theorem extract_text_passthrough:
  "type f = Text \<Longrightarrow>
     snd (extractResumeRawText e f w) = w \<and>
     requests (snd (extractResumeRawText e f w)) = requests w \<and>
     fst (extractResumeRawText e f w) =
       (if getApiKey w = None \<or> getApiKey w = Some [] then Inl (Error ''API_KEY_MISSING'')
        else Inr (content f))"
  by (auto simp: extractResumeRawText_def getAIClient_def Let_def split: option.splits)

theorem extract_text_passthrough_witness:
  "type example_file = Text \<and>
   fst (extractResumeRawText roomy_env example_file keyed_world) = Inr (content example_file) \<and>
   requests (snd (extractResumeRawText roomy_env example_file keyed_world)) = []"
proof -
  have t: "type example_file = Text" by (simp add: example_file_def)
  have k: "getApiKey keyed_world = Some ''AIzaSyExample''"
    by (simp add: getApiKey_def keyed_world_def world_of_def empty_storage_def)
  have r: "requests keyed_world = []" by (simp add: keyed_world_def world_of_def)
  from extract_text_passthrough [OF t, of roomy_env keyed_world] show ?thesis
    using t k r by simp
qed

text \<open>
  The claim as first stated (the content is returned for every text file) fails without a
  stored key.
\<close>

theorem extract_text_without_key_counterexample:
  "type example_file = Text \<and>
   fst (extractResumeRawText roomy_env example_file (world_of empty_storage))
     = Inl (Error ''API_KEY_MISSING'') \<and>
   fst (extractResumeRawText roomy_env example_file (world_of empty_storage))
     \<noteq> Inr (content example_file)"
  by (simp add: extractResumeRawText_def getAIClient_def getApiKey_def world_of_def
      empty_storage_def example_file_def)

subsection \<open>The sampling temperature\<close>

lemma parseFloat_abc: "parseFloat ''abc'' = NaN"
  by (simp add: parseFloat_def split_sign_def is_space_def is_digit_def)

lemma parseFloat_1_7: "parseFloat ''1.7'' = Num (17 / 10)"
  by (simp add: parseFloat_def split_sign_def is_space_def is_digit_def digits_val_def
      digit_val_def exponent_part_def Let_def)

lemma parseFloat_minus_0_3: "parseFloat ''-0.3'' = Num (- (3 / 10))"
  by (simp add: parseFloat_def split_sign_def is_space_def is_digit_def digits_val_def
      digit_val_def exponent_part_def Let_def)

lemma parseFloat_1e2: "parseFloat '' 2.5e-1x'' = Num (1 / 4)"
  by (simp add: parseFloat_def split_sign_def is_space_def is_digit_def digits_val_def
      digit_val_def exponent_part_def Let_def)

lemma parseFloat_no_break_space: "parseFloat (CHR 0xA0 # ''0.25'') = Num (1 / 4)"
  by (simp add: parseFloat_def split_sign_def is_space_def is_digit_def digits_val_def
      digit_val_def exponent_part_def Let_def)

lemma trim_no_break_space: "trim (CHR 0xA0 # '' AIza '' @ [CHR 0xA0]) = ''AIza''"
  by (simp add: trim_def is_space_def)

lemma parseFloat_Inf: "parseFloat ''-Infinity'' = NegInfinity"
  by (simp add: parseFloat_def split_sign_def is_space_def is_digit_def)

lemma clamp_cases:
  "Math_max (Num 0) (Math_min (Num 1) v) =
     (case v of NaN \<Rightarrow> NaN | PosInfinity \<Rightarrow> Num 1 | NegInfinity \<Rightarrow> Num 0
      | Num x \<Rightarrow> Num (max 0 (min 1 x)))"
  by (cases v) (auto simp: Math_max_def Math_min_def isNaN_def)

lemma clamp_in_range:
  "v \<noteq> NaN \<Longrightarrow> \<exists>x. Math_max (Num 0) (Math_min (Num 1) v) = Num x \<and> 0 \<le> x \<and> x \<le> 1"
  by (cases v) (auto simp: clamp_cases)

lemma toFixed1_one: "toFixed1 (Num 1) = ''1.0''"
  by (simp add: toFixed1_def Number_toString.simps [of "Suc 0"] digit_char_def)

lemma toFixed1_zero: "toFixed1 (Num 0) = ''0.0''"
  by (simp add: toFixed1_def Number_toString.simps [of 0] digit_char_def)

lemma toFixed1_NaN: "toFixed1 NaN = ''NaN''"
  by (simp add: toFixed1_def)

lemma getTemperature_cases:
  "getTemperature w =
     (case gemini_temperature (storage w) of
        None \<Rightarrow> Num (4 / 10)
      | Some s \<Rightarrow> if s = [] then Num (4 / 10)
                  else (case parseFloat s of NaN \<Rightarrow> NaN | PosInfinity \<Rightarrow> Num 1 | NegInfinity \<Rightarrow> Num 0
                        | Num x \<Rightarrow> Num (max 0 (min 1 x))))"
  by (simp add: getTemperature_def clamp_cases split: option.splits)

lemma getTemperature_in_range_unless_NaN:
  "getTemperature w = NaN \<or> (\<exists>x. getTemperature w = Num x \<and> 0 \<le> x \<and> x \<le> 1)"
proof (cases "\<exists>s. gemini_temperature (storage w) = Some s \<and> s \<noteq> []")
  case True
  then obtain s where s: "gemini_temperature (storage w) = Some s" "s \<noteq> []" by blast
  then have g: "getTemperature w = Math_max (Num 0) (Math_min (Num 1) (parseFloat s))"
    by (simp add: getTemperature_def)
  show ?thesis
  proof (cases "parseFloat s = NaN")
    case True
    then show ?thesis by (simp add: g clamp_cases)
  next
    case False
    from clamp_in_range [OF this] show ?thesis by (simp add: g)
  qed
next
  case False
  then have "getTemperature w = Num (4 / 10)"
    by (auto simp: getTemperature_def split: option.splits)
  moreover have "0 \<le> (4 / 10 :: real) \<and> (4 / 10 :: real) \<le> 1" by simp
  ultimately show ?thesis by blast
qed

lemma getTemperature_NaN_iff:
  "(getTemperature w = NaN) =
     (\<exists>s. gemini_temperature (storage w) = Some s \<and> s \<noteq> [] \<and> parseFloat s = NaN)"
  by (auto simp: getTemperature_cases split: option.splits js_number.splits)

lemma handleTemperatureChange_in_range:
  assumes "\<exists>x. modal_temperature m = Num x \<and> 0 \<le> x \<and> x \<le> 1"
  shows "\<exists>x. modal_temperature (handleTemperatureChange v m) = Num x \<and> 0 \<le> x \<and> x \<le> 1"
proof (cases "parseFloat v = NaN")
  case True
  then show ?thesis using assms by (simp add: handleTemperatureChange_def isNaN_def)
next
  case False
  then show ?thesis using clamp_in_range [OF False]
    by (simp add: handleTemperatureChange_def isNaN_def)
qed

lemma handleSave_persists_temperature:
  "handleSave e m w = Inr w' \<Longrightarrow> gemini_temperature (storage w') = Some (toFixed1 (modal_temperature m))"
  by (auto simp: handleSave_def setItem_temperature_def Let_def split: sum.splits if_splits)

lemma invalid_temperature_persisted_as_NaN:
  "handleSave e m w = Inr w' \<Longrightarrow> modal_temperature m = NaN \<Longrightarrow>
     gemini_temperature (storage w') = Some ''NaN''"
  by (drule handleSave_persists_temperature) (simp add: toFixed1_NaN)

lemma temperature_1_7_persisted_as_1_0:
  "handleSave e (handleTemperatureChange ''1.7'' m) w = Inr w' \<Longrightarrow>
     gemini_temperature (storage w') = Some ''1.0''"
  by (drule handleSave_persists_temperature)
     (simp add: handleTemperatureChange_def parseFloat_1_7 isNaN_def clamp_cases toFixed1_one)

lemma temperature_minus_0_3_persisted_as_0_0:
  "handleSave e (handleTemperatureChange ''-0.3'' m) w = Inr w' \<Longrightarrow>
     gemini_temperature (storage w') = Some ''0.0''"
  by (drule handleSave_persists_temperature)
     (simp add: handleTemperatureChange_def parseFloat_minus_0_3 isNaN_def clamp_cases toFixed1_zero)

text \<open>
  Claim C8. Every number that is not \<^verbatim>\<open>NaN\<close> is clamped into \<open>[0, 1]\<close>, on the slider
  (\<open>handleTemperatureChange_in_range\<close>, with 1.7 saved as \<^verbatim>\<open>1.0\<close> and -0.3 as \<^verbatim>\<open>0.0\<close>)
  and on reading the setting (\<open>getTemperature_in_range_unless_NaN\<close>). But a stored
  string that is not a number is not replaced by the default 0.4, as the comment in
  \<^verbatim>\<open>getTemperature\<close> says it is: \<^verbatim>\<open>parseFloat\<close> gives \<^verbatim>\<open>NaN\<close>, which goes through
  \<^verbatim>\<open>Math.min\<close> and \<^verbatim>\<open>Math.max\<close>, and the temperature used for the request is \<^verbatim>\<open>NaN\<close>.
\<close>

theorem getTemperature_invalid_stored_value:
  "gemini_temperature (storage invalid_temperature_world) = Some ''abc'' \<and>
   getTemperature invalid_temperature_world = NaN"
  by (simp add: getTemperature_def invalid_temperature_world_def world_of_def empty_storage_def
      parseFloat_abc Math_max_def Math_min_def isNaN_def)

section \<open>Properties of the batch orchestrator\<close>

lemma analyzeResume_storage:
  "storage (snd (analyzeResume e f job w)) = storage w"
  by (simp add: analyzeResume_def send_def rethrow_def Let_def
      split: sum.splits option.splits)

lemma analyzeResume_requests:
  "requests (snd (analyzeResume e f job w)) = requests w \<or>
   (\<exists>rq. requests (snd (analyzeResume e f job w)) = requests w @ [rq])"
  by (simp add: analyzeResume_def send_def rethrow_def Let_def
      split: sum.splits option.splits)

lemma analyzeResume_requests_length:
  "length (requests (snd (analyzeResume e f job w))) \<le> Suc (length (requests w))"
  using analyzeResume_requests [of e f job w] by auto

lemma process_item_world:
  "process_item e job item i r = (ab, r') \<Longrightarrow>
     world r' = snd (analyzeResume e (item_file item) job (world r))"
  by (auto simp: process_item_def setBatchItems_def showToast_def Let_def case_prod_beta
      split: sum.splits if_splits)

lemma process_item_history:
  "process_item e job item i r = (ab, r') \<Longrightarrow>
     historySessions (app r') = historySessions (app r)"
  by (auto simp: process_item_def setBatchItems_def showToast_def Let_def case_prod_beta
      split: sum.splits if_splits)

lemma process_item_abort:
  assumes "process_item e job item i r = (True, r')"
  shows "processedItems r' = processedItems r"
    and "batchItems (app r') = mark_analyzing item (batchItems (app r))"
    and "batch_trace r' = batch_trace r @ [mark_analyzing item (batchItems (app r))]"
    and "isSettingsOpen (app r')" and "\<not> hasApiKey (app r')" and "\<not> isProcessing (app r')"
    and "\<exists>err. fst (analyzeResume e (item_file item) job (world r)) = Inl err \<and>
               message err = ''API_KEY_MISSING''"
    and "toasts (app r') = toasts (app r) @ [(key_invalid, toast_error)]"
  using assms
  by (auto simp: process_item_def setBatchItems_def showToast_def Let_def case_prod_beta
      split: sum.splits if_splits)

lemma process_item_continue:
  assumes "process_item e job item i r = (False, r')"
  shows "\<exists>x. terminal x \<and> item_file x = item_file item \<and>
           processedItems r' = (processedItems r)[i := x] \<and>
           batchItems (app r') = replace_item item x (mark_analyzing item (batchItems (app r))) \<and>
           batch_trace r' = batch_trace r @
             [mark_analyzing item (batchItems (app r)),
              replace_item item x (mark_analyzing item (batchItems (app r)))]"
proof (cases "fst (analyzeResume e (item_file item) job (world r))")
  case (Inl err)
  show ?thesis
    by (rule exI [of _ "item\<lparr>status := error, error_message := Some (message err)\<rparr>"])
       (use assms Inl in \<open>auto simp: process_item_def setBatchItems_def showToast_def Let_def
          case_prod_beta terminal_def split: if_splits\<close>)
next
  case (Inr rv)
  show ?thesis
    by (rule exI [of _ "item\<lparr>status := completed, result := rv\<rparr>"])
       (use assms Inr in \<open>auto simp: process_item_def setBatchItems_def showToast_def Let_def
          case_prod_beta terminal_def\<close>)
qed

lemma mark_analyzing_update:
  assumes "distinct (map (\<lambda>p. file_id (item_file p)) bs)" and "i < length bs"
    and "file_id (item_file item) = file_id (item_file (bs ! i))"
  shows "mark_analyzing item bs = bs[i := (bs ! i)\<lparr>status := analyzing\<rparr>]"
proof (rule nth_equalityI)
  show "length (mark_analyzing item bs) = length (bs[i := (bs ! i)\<lparr>status := analyzing\<rparr>])"
    by (simp add: mark_analyzing_def)
next
  fix j assume "j < length (mark_analyzing item bs)"
  then have j: "j < length bs" by (simp add: mark_analyzing_def)
  have "(file_id (item_file (bs ! j)) = file_id (item_file (bs ! i))) = (j = i)"
    using assms(1,2) j nth_eq_iff_index_eq [of "map (\<lambda>p. file_id (item_file p)) bs" j i]
    by simp
  then show "mark_analyzing item bs ! j = bs[i := (bs ! i)\<lparr>status := analyzing\<rparr>] ! j"
    using j assms(2,3) by (auto simp: mark_analyzing_def nth_list_update)
qed

lemma replace_item_update:
  assumes "distinct (map (\<lambda>p. file_id (item_file p)) bs)" and "i < length bs"
    and "file_id (item_file item) = file_id (item_file (bs ! i))"
  shows "replace_item item x bs = bs[i := x]"
proof (rule nth_equalityI)
  show "length (replace_item item x bs) = length (bs[i := x])"
    by (simp add: replace_item_def)
next
  fix j assume "j < length (replace_item item x bs)"
  then have j: "j < length bs" by (simp add: replace_item_def)
  have "(file_id (item_file (bs ! j)) = file_id (item_file (bs ! i))) = (j = i)"
    using assms(1,2) j nth_eq_iff_index_eq [of "map (\<lambda>p. file_id (item_file p)) bs" j i]
    by simp
  then show "replace_item item x bs ! j = bs[i := x] ! j"
    using j assms(2,3) by (auto simp: replace_item_def nth_list_update)
qed

lemma initialItems_of_nth:
  "j < length fs \<Longrightarrow> initialItems_of fs ! j =
     \<lparr> item_file = fs ! j, status = idle, result = None, error_message = None \<rparr>"
  by (simp add: initialItems_of_def)

lemma initialItems_of_length: "length (initialItems_of fs) = length fs"
  by (simp add: initialItems_of_def)

lemma initialItems_of_files: "map item_file (initialItems_of fs) = fs"
  by (simp add: initialItems_of_def comp_def)

lemma sequentialI:
  assumes "k \<le> length s" and "\<And>j. j < k \<Longrightarrow> terminal (s ! j)"
    and "\<And>j. j < length s \<Longrightarrow> k < j \<Longrightarrow> status (s ! j) = idle"
  shows "sequential s"
  unfolding sequential_def using assms by blast

text \<open>What the lists shown while item \<open>i\<close> is processed look like.\<close>

lemma step_lists:
  assumes inv: "batch_inv fs i r" and d: "distinct (map file_id fs)" and i: "i < length fs"
  defines "ps \<equiv> processedItems r"
  defines "item \<equiv> initialItems_of fs ! i"
  shows "mark_analyzing item (batchItems (app r)) = ps[i := item\<lparr>status := analyzing\<rparr>]"
    and "item_file x = item_file item \<Longrightarrow>
         replace_item item x (mark_analyzing item (batchItems (app r))) = ps[i := x]"
    and "map item_file (ps[i := item\<lparr>status := analyzing\<rparr>]) = fs"
    and "sequential (ps[i := item\<lparr>status := analyzing\<rparr>])"
    and "item_file x = item_file item \<Longrightarrow> map item_file (ps[i := x]) = fs"
    and "terminal x \<Longrightarrow> sequential (ps[i := x])"
proof -
  have len: "length ps = length fs" and fl: "map item_file ps = fs"
    and b: "batchItems (app r) = ps"
    and before: "\<And>j. j < i \<Longrightarrow> terminal (ps ! j)"
    and after: "\<And>j. j < length fs \<Longrightarrow> i \<le> j \<Longrightarrow> ps ! j = initialItems_of fs ! j"
    using inv i unfolding batch_inv_def ps_def by auto
  have ids: "distinct (map (\<lambda>p. file_id (item_file p)) ps)"
    using d fl by (metis (no_types, lifting) map_map comp_def map_eq_conv)
  have pi: "ps ! i = item" using after [of i] i by (simp add: item_def)
  have fi: "item_file item = fs ! i" using i by (simp add: item_def initialItems_of_nth)
  have il: "i < length ps" using i len by simp
  show m: "mark_analyzing item (batchItems (app r)) = ps[i := item\<lparr>status := analyzing\<rparr>]"
    using mark_analyzing_update [OF ids il, of item] pi b by simp
  have ids': "distinct (map (\<lambda>p. file_id (item_file p)) (ps[i := item\<lparr>status := analyzing\<rparr>]))"
    using ids il pi by (simp add: map_update) (metis list_update_id map_update)
  show "replace_item item x (mark_analyzing item (batchItems (app r))) = ps[i := x]"
    if "item_file x = item_file item"
    using replace_item_update [OF ids', of i item x] il by (simp add: m)
  show "map item_file (ps[i := item\<lparr>status := analyzing\<rparr>]) = fs"
    using fl il fi by (auto simp: map_update list_update_same_conv)
  show "map item_file (ps[i := x]) = fs" if "item_file x = item_file item"
    using fl il fi that by (auto simp: map_update list_update_same_conv)
  have idle_after: "status (ps ! j) = idle" if "j < length fs" "i < j" for j
    using after [of j] that by (simp add: initialItems_of_nth)
  show "sequential (ps[i := item\<lparr>status := analyzing\<rparr>])"
    by (rule sequentialI [of i]) (use il len before idle_after in \<open>auto simp: nth_list_update\<close>)
  show "sequential (ps[i := x])" if "terminal x"
    by (rule sequentialI [of "Suc i"])
       (use il len before idle_after that in \<open>auto simp: nth_list_update less_Suc_eq\<close>)
qed

lemma process_item_keeps_inv:
  assumes inv: "batch_inv fs i r" and d: "distinct (map file_id fs)" and i: "i < length fs"
    and step: "process_item e job (initialItems_of fs ! i) i r = (False, r')"
  shows "batch_inv fs (Suc i) r'"
proof -
  from process_item_continue [OF step] obtain x where
    x: "terminal x" "item_file x = item_file (initialItems_of fs ! i)"
    and p: "processedItems r' = (processedItems r)[i := x]"
    and b: "batchItems (app r') =
              replace_item (initialItems_of fs ! i) x
                (mark_analyzing (initialItems_of fs ! i) (batchItems (app r)))"
    and t: "batch_trace r' = batch_trace r @
              [mark_analyzing (initialItems_of fs ! i) (batchItems (app r)),
               replace_item (initialItems_of fs ! i) x
                 (mark_analyzing (initialItems_of fs ! i) (batchItems (app r)))]"
    by blast
  note l = step_lists [OF inv d i]
  have len: "length (processedItems r) = length fs"
    and before: "\<And>j. j < i \<Longrightarrow> terminal (processedItems r ! j)"
    and after: "\<And>j. j < length fs \<Longrightarrow> i \<le> j \<Longrightarrow> processedItems r ! j = initialItems_of fs ! j"
    and tr: "\<And>s. s \<in> set (batch_trace r) \<Longrightarrow> map item_file s = fs \<and> sequential s"
    using inv i unfolding batch_inv_def by auto
  have b': "batchItems (app r') = processedItems r'"
    using b l(2) [OF x(2)] p by simp
  have t': "batch_trace r' = batch_trace r @
      [(processedItems r)[i := (initialItems_of fs ! i)\<lparr>status := analyzing\<rparr>], (processedItems r)[i := x]]"
    using t l(1) l(2) [OF x(2)] by simp
  have "\<forall>s \<in> set (batch_trace r'). map item_file s = fs \<and> sequential s"
    using tr l(3) l(4) l(5) [OF x(2)] l(6) [OF x(1)] unfolding t' by auto
  moreover have "\<forall>j < Suc i. j < length fs \<longrightarrow> terminal (processedItems r' ! j)"
    using before x(1) len i by (auto simp: p nth_list_update less_Suc_eq)
  moreover have "\<forall>j < length fs. Suc i \<le> j \<longrightarrow> processedItems r' ! j = initialItems_of fs ! j"
    using after by (auto simp: p nth_list_update)
  moreover have "length (processedItems r') = length fs" using len by (simp add: p)
  moreover have "map item_file (processedItems r') = fs" using l(5) [OF x(2)] by (simp add: p)
  ultimately show ?thesis using b' unfolding batch_inv_def by blast
qed

lemma process_item_abort_lists:
  assumes inv: "batch_inv fs i r" and d: "distinct (map file_id fs)" and i: "i < length fs"
    and step: "process_item e job (initialItems_of fs ! i) i r = (True, r')"
  shows "batchItems (app r') = (processedItems r)[i := (initialItems_of fs ! i)\<lparr>status := analyzing\<rparr>]"
    and "\<forall>s \<in> set (batch_trace r'). map item_file s = fs \<and> sequential s"
proof -
  note l = step_lists [OF inv d i]
  note a = process_item_abort [OF step]
  show "batchItems (app r') = (processedItems r)[i := (initialItems_of fs ! i)\<lparr>status := analyzing\<rparr>]"
    using a(2) l(1) by simp
  have tr: "\<And>s. s \<in> set (batch_trace r) \<Longrightarrow> map item_file s = fs \<and> sequential s"
    using inv unfolding batch_inv_def by auto
  show "\<forall>s \<in> set (batch_trace r'). map item_file s = fs \<and> sequential s"
    using tr l(3) l(4) a(3) l(1) by auto
qed

lemma process_from_step:
  "i < length its \<Longrightarrow> process_item e job (its ! i) i r = (True, r1) \<Longrightarrow>
     process_from e job its i r = (Some i, r1)"
  "i < length its \<Longrightarrow> process_item e job (its ! i) i r = (False, r1) \<Longrightarrow>
     process_from e job its i r = process_from e job its (Suc i) r1"
  "\<not> i < length its \<Longrightarrow> process_from e job its i r = (None, r)"
  by (simp_all add: process_from.simps)

text \<open>Induction over the iterations of the loop.\<close>

lemma process_from_induct [consumes 1, case_names stop abort cont]:
  assumes run: "process_from e job its i r = (out, r')"
    and stop: "\<And>i r. \<not> i < length its \<Longrightarrow> P i r None r"
    and abort: "\<And>i r r1. i < length its \<Longrightarrow> process_item e job (its ! i) i r = (True, r1) \<Longrightarrow>
                  P i r (Some i) r1"
    and cont: "\<And>i r r1 out r'. i < length its \<Longrightarrow>
                  process_item e job (its ! i) i r = (False, r1) \<Longrightarrow>
                  process_from e job its (Suc i) r1 = (out, r') \<Longrightarrow>
                  P (Suc i) r1 out r' \<Longrightarrow> P i r out r'"
  shows "P i r out r'"
  using run
proof (induction "length its - i" arbitrary: i r)
  case 0
  then have "\<not> i < length its" by simp
  with 0 stop [of i r] show ?case by (simp add: process_from_step(3))
next
  case (Suc n)
  then have i: "i < length its" by simp
  obtain ab r1 where s: "process_item e job (its ! i) i r = (ab, r1)"
    by (cases "process_item e job (its ! i) i r")
  show ?case
  proof (cases ab)
    case True
    with Suc.prems i s abort [of i r r1] show ?thesis by (simp add: process_from_step(1))
  next
    case False
    with s have s': "process_item e job (its ! i) i r = (False, r1)" by simp
    from Suc.prems have run': "process_from e job its (Suc i) r1 = (out, r')"
      by (simp add: process_from_step(2) [OF i s'])
    have "n = length its - Suc i" using Suc.hyps(2) by simp
    from Suc.hyps(1) [OF this run'] have "P (Suc i) r1 out r'" .
    from cont [OF i s' run' this] show ?thesis .
  qed
qed

lemma process_item_frame:
  assumes "process_item e job item i r = (ab, r')"
  shows "storage (world r') = storage (world r)"
    and "historySessions (app r') = historySessions (app r)"
    and "length (requests (world r')) \<le> Suc (length (requests (world r)))"
  using process_item_world [OF assms] process_item_history [OF assms]
    analyzeResume_storage [of e "item_file item" job "world r"]
    analyzeResume_requests_length [of e "item_file item" job "world r"]
  by simp_all

lemma process_from_frame:
  assumes "process_from e job its i r = (out, r')"
  shows "storage (world r') = storage (world r) \<and>
         historySessions (app r') = historySessions (app r) \<and>
         length (requests (world r')) + i \<le>
           length (requests (world r)) + (case out of None \<Rightarrow> max i (length its) | Some k \<Rightarrow> Suc k)"
  using assms
proof (induction rule: process_from_induct)
  case (stop i r)
  then show ?case by simp
next
  case (abort i r r1)
  with process_item_frame [OF abort(2)] show ?case by simp
next
  case (cont i r r1 out r')
  with process_item_frame [OF cont(2)] show ?case by (auto split: option.splits)
qed

lemma process_from_abort:
  assumes "process_from e job its i r = (out, r')"
  shows "\<forall>k. out = Some k \<longrightarrow>
           i \<le> k \<and> k < length its \<and>
           isSettingsOpen (app r') \<and> \<not> hasApiKey (app r') \<and> \<not> isProcessing (app r') \<and>
           last (toasts (app r')) = (key_invalid, toast_error) \<and>
           (\<exists>wk err. storage wk = storage (world r) \<and>
              fst (analyzeResume e (item_file (its ! k)) job wk) = Inl err \<and>
              message err = ''API_KEY_MISSING'')"
  using assms
proof (induction rule: process_from_induct)
  case (stop i r)
  then show ?case by simp
next
  case (abort i r r1)
  with process_item_abort [OF abort(2)] show ?case by auto
next
  case (cont i r r1 out r')
  with process_item_frame(1) [OF cont(2)] show ?case by auto
qed

lemma batch_inv_end: "batch_inv fs i r \<Longrightarrow> length fs \<le> i \<Longrightarrow> batch_inv fs (length fs) r"
  unfolding batch_inv_def by auto

lemma process_from_inv:
  assumes "process_from e job (initialItems_of fs) i r = (out, r')"
    and "distinct (map file_id fs)"
  shows "batch_inv fs i r \<longrightarrow>
           (\<forall>s \<in> set (batch_trace r'). map item_file s = fs \<and> sequential s) \<and>
           (case out of
              None \<Rightarrow> batch_inv fs (length fs) r'
            | Some k \<Rightarrow>
                map item_file (batchItems (app r')) = fs \<and>
                (\<forall>j < k. terminal (batchItems (app r') ! j)) \<and>
                status (batchItems (app r') ! k) = analyzing \<and>
                (\<forall>j < length fs. k < j \<longrightarrow> status (batchItems (app r') ! j) = idle))"
  using assms(1)
proof (induction rule: process_from_induct)
  case (stop i r)
  then show ?case
    by (auto simp: initialItems_of_length batch_inv_def)
next
  case (abort i r r1)
  show ?case
  proof
    assume inv: "batch_inv fs i r"
    from abort(1) have i: "i < length fs" by (simp add: initialItems_of_length)
    note l = process_item_abort_lists [OF inv assms(2) i abort(2)]
    have len: "length (processedItems r) = length fs"
      and fl: "map item_file (processedItems r) = fs"
      and before: "\<And>j. j < i \<Longrightarrow> terminal (processedItems r ! j)"
      and after: "\<And>j. j < length fs \<Longrightarrow> i \<le> j \<Longrightarrow> processedItems r ! j = initialItems_of fs ! j"
      using inv i unfolding batch_inv_def by auto
    have "map item_file (batchItems (app r1)) = fs"
      using step_lists(3) [OF inv assms(2) i] l(1) by simp
    moreover have "\<forall>j < i. terminal (batchItems (app r1) ! j)"
      using before by (simp add: l(1))
    moreover have "status (batchItems (app r1) ! i) = analyzing"
      using i len by (simp add: l(1))
    moreover have "\<forall>j < length fs. i < j \<longrightarrow> status (batchItems (app r1) ! j) = idle"
      using after by (auto simp: l(1) initialItems_of_nth)
    ultimately show "(\<forall>s \<in> set (batch_trace r1). map item_file s = fs \<and> sequential s) \<and>
           (case Some i of
              None \<Rightarrow> batch_inv fs (length fs) r1
            | Some k \<Rightarrow>
                map item_file (batchItems (app r1)) = fs \<and>
                (\<forall>j < k. terminal (batchItems (app r1) ! j)) \<and>
                status (batchItems (app r1) ! k) = analyzing \<and>
                (\<forall>j < length fs. k < j \<longrightarrow> status (batchItems (app r1) ! j) = idle))"
      using l(2) by simp
  qed
next
  case (cont i r r1 out r')
  show ?case
  proof
    assume inv: "batch_inv fs i r"
    from cont(1) have i: "i < length fs" by (simp add: initialItems_of_length)
    from process_item_keeps_inv [OF inv assms(2) i cont(2)] cont(4)
    show "(\<forall>s \<in> set (batch_trace r'). map item_file s = fs \<and> sequential s) \<and>
           (case out of
              None \<Rightarrow> batch_inv fs (length fs) r'
            | Some k \<Rightarrow>
                map item_file (batchItems (app r')) = fs \<and>
                (\<forall>j < k. terminal (batchItems (app r') ! j)) \<and>
                status (batchItems (app r') ! k) = analyzing \<and>
                (\<forall>j < length fs. k < j \<longrightarrow> status (batchItems (app r') ! j) = idle))"
      by blast
  qed
qed

lemma start_run_inv: "batch_inv (files a) 0 (start_run a w)"
proof -
  have "sequential (initialItems_of (files a))"
    by (rule sequentialI [of 0]) (simp_all add: initialItems_of_length initialItems_of_nth)
  then show ?thesis
    by (simp add: batch_inv_def start_run_def setBatchItems_def showToast_def Let_def
        initialItems_of_length initialItems_of_files)
qed

lemma start_run_frame:
  "world (start_run a w) = w" "historySessions (app (start_run a w)) = historySessions a"
  by (simp_all add: start_run_def setBatchItems_def showToast_def Let_def)

lemma finish_run_result:
  assumes "finish_run e t1 t2 job r5 = (out, r')"
  shows "\<exists>sv. out = finished sv"
    and "batchItems (app r') = batchItems (app r5)"
    and "processedItems r' = processedItems r5"
    and "batch_trace r' = batch_trace r5"
  using assms
  by (auto simp: finish_run_def showToast_def Let_def case_prod_beta split: option.splits)

lemma sequential_one_analyzing:
  assumes "sequential s"
  shows "length (filter (\<lambda>p. status p = analyzing) s) \<le> 1"
proof -
  from assms obtain k where k: "k \<le> length s"
    and before: "\<And>j. j < k \<Longrightarrow> terminal (s ! j)"
    and after: "\<And>j. j < length s \<Longrightarrow> k < j \<Longrightarrow> status (s ! j) = idle"
    unfolding sequential_def by blast
  have a: "filter (\<lambda>p. status p = analyzing) (take k s) = []"
  proof -
    have "\<forall>p \<in> set (take k s). status p \<noteq> analyzing"
    proof
      fix p assume "p \<in> set (take k s)"
      then obtain j where "j < length (take k s)" "p = take k s ! j"
        by (auto simp: in_set_conv_nth)
      then have "j < k" "p = s ! j" by simp_all
      with before [of j] show "status p \<noteq> analyzing" by (auto simp: terminal_def)
    qed
    then show ?thesis by (simp add: filter_empty_conv)
  qed
  have b: "filter (\<lambda>p. status p = analyzing) (drop (Suc k) s) = []"
  proof -
    have "\<forall>p \<in> set (drop (Suc k) s). status p \<noteq> analyzing"
    proof
      fix p assume "p \<in> set (drop (Suc k) s)"
      then obtain j where j: "j < length (drop (Suc k) s)" "p = drop (Suc k) s ! j"
        by (auto simp: in_set_conv_nth)
      then have "Suc k + j < length s" "p = s ! (Suc k + j)" by simp_all
      with after [of "Suc k + j"] show "status p \<noteq> analyzing" by simp
    qed
    then show ?thesis by (simp add: filter_empty_conv)
  qed
  show ?thesis
  proof (cases "k < length s")
    case True
    then have "s = take k s @ s ! k # drop (Suc k) s" by (simp add: id_take_nth_drop [symmetric])
    then have "filter (\<lambda>p. status p = analyzing) s =
        filter (\<lambda>p. status p = analyzing) (take k s) @
        filter (\<lambda>p. status p = analyzing) [s ! k] @
        filter (\<lambda>p. status p = analyzing) (drop (Suc k) s)"
      by (metis filter_append append_Cons append_Nil)
    then show ?thesis by (simp add: a b)
  next
    case False
    with k have "take k s = s" by simp
    with a show ?thesis by simp
  qed
qed

lemma sequential_order:
  assumes "sequential s" and "Suc j < length s" and "status (s ! Suc j) \<noteq> idle"
  shows "terminal (s ! j)"
proof -
  from assms(1) obtain k where
    before: "\<And>j. j < k \<Longrightarrow> terminal (s ! j)"
    and after: "\<And>j. j < length s \<Longrightarrow> k < j \<Longrightarrow> status (s ! j) = idle"
    unfolding sequential_def by blast
  from after [of "Suc j"] assms(2,3) have "\<not> k < Suc j" by blast
  then have "j < k" by simp
  then show ?thesis by (rule before)
qed

lemma handleBatchAnalyze_rejected:
  assumes "\<not> hasApiKey a \<or> files a = [] \<or> description (jobContext a) = []"
  shows "fst (handleBatchAnalyze e t1 t2 a w) = rejected"
    and "batch_trace (snd (handleBatchAnalyze e t1 t2 a w)) = []"
    and "batchItems (app (snd (handleBatchAnalyze e t1 t2 a w))) = batchItems a"
    and "world (snd (handleBatchAnalyze e t1 t2 a w)) = w"
  using assms by (auto simp: handleBatchAnalyze_def showToast_def Let_def)

lemma handleBatchAnalyze_started:
  assumes "hasApiKey a" and "files a \<noteq> []" and "description (jobContext a) \<noteq> []"
    and "handleBatchAnalyze e t1 t2 a w = (out, r)"
  shows "(\<exists>k. out = aborted k \<and>
            process_from e (jobContext a) (initialItems_of (files a)) 0 (start_run a w) = (Some k, r)) \<or>
         (\<exists>r5. process_from e (jobContext a) (initialItems_of (files a)) 0 (start_run a w) = (None, r5) \<and>
            finish_run e t1 t2 (jobContext a) r5 = (out, r))"
  using assms
  by (auto simp: handleBatchAnalyze_def Let_def split: prod.splits option.splits)

lemma handleBatchAnalyze_aborted:
  assumes "handleBatchAnalyze e t1 t2 a w = (aborted k, r)"
  shows "hasApiKey a" and "files a \<noteq> []" and "description (jobContext a) \<noteq> []"
    and "process_from e (jobContext a) (initialItems_of (files a)) 0 (start_run a w) = (Some k, r)"
proof -
  show g: "hasApiKey a" "files a \<noteq> []" "description (jobContext a) \<noteq> []"
    using assms by (auto simp: handleBatchAnalyze_def showToast_def Let_def split: if_splits)
  from handleBatchAnalyze_started [OF g assms] finish_run_result(1)
  show "process_from e (jobContext a) (initialItems_of (files a)) 0 (start_run a w) = (Some k, r)"
    by fastforce
qed

lemma handleBatchAnalyze_lists:
  assumes g: "hasApiKey a" "files a \<noteq> []" "description (jobContext a) \<noteq> []"
    and d: "distinct (map file_id (files a))"
    and run: "handleBatchAnalyze e t1 t2 a w = (out, r)"
  shows "\<forall>s \<in> set (batch_trace r). map item_file s = files a \<and> sequential s"
    and "map item_file (batchItems (app r)) = files a"
    and "\<And>sv. out = finished sv \<Longrightarrow>
           processedItems r = batchItems (app r) \<and> (\<forall>j < length (files a). terminal (batchItems (app r) ! j))"
    and "\<And>k. out = aborted k \<Longrightarrow>
           k < length (files a) \<and> (\<forall>j < k. terminal (batchItems (app r) ! j)) \<and>
           status (batchItems (app r) ! k) = analyzing \<and>
           (\<forall>j < length (files a). k < j \<longrightarrow> status (batchItems (app r) ! j) = idle)"
proof -
  from handleBatchAnalyze_started [OF g run]
  consider (ab) k where "out = aborted k"
      "process_from e (jobContext a) (initialItems_of (files a)) 0 (start_run a w) = (Some k, r)"
    | (fin) r5 where
      "process_from e (jobContext a) (initialItems_of (files a)) 0 (start_run a w) = (None, r5)"
      "finish_run e t1 t2 (jobContext a) r5 = (out, r)"
    by blast
  then have "(\<forall>s \<in> set (batch_trace r). map item_file s = files a \<and> sequential s) \<and>
      map item_file (batchItems (app r)) = files a \<and>
      (\<forall>sv. out = finished sv \<longrightarrow>
           processedItems r = batchItems (app r) \<and> (\<forall>j < length (files a). terminal (batchItems (app r) ! j))) \<and>
      (\<forall>k. out = aborted k \<longrightarrow>
           k < length (files a) \<and> (\<forall>j < k. terminal (batchItems (app r) ! j)) \<and>
           status (batchItems (app r) ! k) = analyzing \<and>
           (\<forall>j < length (files a). k < j \<longrightarrow> status (batchItems (app r) ! j) = idle))"
  proof cases
    case ab
    from process_from_inv [OF ab(2) d] start_run_inv [of a w]
    have "(\<forall>s \<in> set (batch_trace r). map item_file s = files a \<and> sequential s) \<and>
          map item_file (batchItems (app r)) = files a \<and>
          (\<forall>j < k. terminal (batchItems (app r) ! j)) \<and>
          status (batchItems (app r) ! k) = analyzing \<and>
          (\<forall>j < length (files a). k < j \<longrightarrow> status (batchItems (app r) ! j) = idle)"
      by simp
    moreover from process_from_abort [OF ab(2)] have "k < length (files a)"
      by (simp add: initialItems_of_length)
    ultimately show ?thesis using ab(1) by simp
  next
    case fin
    from process_from_inv [OF fin(1) d] start_run_inv [of a w]
    have tr: "\<forall>s \<in> set (batch_trace r5). map item_file s = files a \<and> sequential s"
      and inv: "batch_inv (files a) (length (files a)) r5"
      by simp_all
    note f = finish_run_result [OF fin(2)]
    from inv have "map item_file (batchItems (app r5)) = files a"
      "processedItems r5 = batchItems (app r5)"
      "\<forall>j < length (files a). terminal (batchItems (app r5) ! j)"
      unfolding batch_inv_def by auto
    then show ?thesis using f tr by auto
  qed
  then show "\<forall>s \<in> set (batch_trace r). map item_file s = files a \<and> sequential s"
    and "map item_file (batchItems (app r)) = files a"
    and "\<And>sv. out = finished sv \<Longrightarrow>
           processedItems r = batchItems (app r) \<and> (\<forall>j < length (files a). terminal (batchItems (app r) ! j))"
    and "\<And>k. out = aborted k \<Longrightarrow>
           k < length (files a) \<and> (\<forall>j < k. terminal (batchItems (app r) ! j)) \<and>
           status (batchItems (app r) ! k) = analyzing \<and>
           (\<forall>j < length (files a). k < j \<longrightarrow> status (batchItems (app r) ! j) = idle)"
    by blast+
qed

subsection \<open>Two runs on the example data\<close>

lemma process_item_fst:
  "fst (process_item e job item i r) =
     (\<exists>err. fst (analyzeResume e (item_file item) job (world r)) = Inl err \<and>
            message err = ''API_KEY_MISSING'')"
  by (auto simp: process_item_def setBatchItems_def showToast_def Let_def case_prod_beta
      split: sum.splits)

lemma process_item_processed:
  "processedItems (snd (process_item e job item i r)) =
     (case fst (analyzeResume e (item_file item) job (world r)) of
        Inr rv \<Rightarrow> (processedItems r)[i := item\<lparr>status := completed, result := rv\<rparr>]
      | Inl err \<Rightarrow>
          if message err = ''API_KEY_MISSING'' then processedItems r
          else (processedItems r)[i := item\<lparr>status := error, error_message := Some (message err)\<rparr>])"
  by (auto simp: process_item_def setBatchItems_def showToast_def Let_def case_prod_beta
      split: sum.splits)

lemma process_item_snd_world:
  "world (snd (process_item e job item i r)) = snd (analyzeResume e (item_file item) job (world r))"
  by (rule process_item_world [of e job item i r "fst (process_item e job item i r)"]) simp

lemma handleBatchAnalyze_outcome:
  assumes "hasApiKey a" and "files a \<noteq> []" and "description (jobContext a) \<noteq> []"
  shows "process_from e (jobContext a) (initialItems_of (files a)) 0 (start_run a w) = (Some k, r) \<Longrightarrow>
           handleBatchAnalyze e t1 t2 a w = (aborted k, r)"
    and "process_from e (jobContext a) (initialItems_of (files a)) 0 (start_run a w) = (None, r) \<Longrightarrow>
           handleBatchAnalyze e t1 t2 a w = finish_run e t1 t2 (jobContext a) r"
  using assms by (simp_all add: handleBatchAnalyze_def)

lemma keyed_world_key: "gemini_api_key (storage keyed_world) = Some ''AIzaSyExample''"
  by (simp add: keyed_world_def world_of_def empty_storage_def)

lemma first_call:
  "generateContent e 0 = (\<lambda>req. Inr (Some ''{...}'')) \<Longrightarrow>
   JSON_parse_result e ''{...}'' = Inr rv \<Longrightarrow>
   fst (analyzeResume e f job keyed_world) = Inr rv \<and>
   length (requests (snd (analyzeResume e f job keyed_world))) = 1 \<and>
   storage (snd (analyzeResume e f job keyed_world)) = storage keyed_world"
  by (simp add: analyzeResume_def getAIClient_def getApiKey_def send_def rethrow_def Let_def
      keyed_world_def world_of_def empty_storage_def)

lemma second_call:
  "length (requests w) = 1 \<Longrightarrow> storage w = storage keyed_world \<Longrightarrow>
   generateContent e 1 = (\<lambda>req. Inl err) \<Longrightarrow>
   fst (analyzeResume e f job w) = Inl err"
  by (simp add: analyzeResume_def getAIClient_def getApiKey_def send_def rethrow_def Let_def
      keyed_world_key)

lemma revoked_outcome:
  "fst (handleBatchAnalyze revoked_env 1 2 (example_app three_files) keyed_world) = aborted 1"
proof -
  let ?a = "example_app three_files"
  let ?its = "initialItems_of three_files"
  let ?r0 = "start_run ?a keyed_world"
  let ?r1 = "snd (process_item revoked_env example_job (?its ! 0) 0 ?r0)"
  let ?r2 = "snd (process_item revoked_env example_job (?its ! 1) 1 ?r1)"
  have g: "hasApiKey ?a" "files ?a \<noteq> []" "description (jobContext ?a) \<noteq> []"
    "jobContext ?a = example_job" "files ?a = three_files"
    by (simp_all add: example_app_def three_files_def example_job_def)
  have len: "0 < length ?its" "1 < length ?its" "item_file (?its ! 0) = example_file"
    "item_file (?its ! 1) = second_file" "item_file (?its ! Suc 0) = second_file"
    by (simp_all add: initialItems_of_def three_files_def)
  have c0: "fst (analyzeResume revoked_env example_file example_job keyed_world) = Inr (Some (example_result 80)) \<and>
   length (requests (snd (analyzeResume revoked_env example_file example_job keyed_world))) = 1 \<and>
   storage (snd (analyzeResume revoked_env example_file example_job keyed_world)) = storage keyed_world"
    by (rule first_call) (simp_all add: revoked_env_def flaky_env_def roomy_env_def)
  have w0: "world ?r0 = keyed_world" by (rule start_run_frame)
  have s0: "process_item revoked_env example_job (?its ! 0) 0 ?r0 = (False, ?r1)"
    using process_item_fst [of revoked_env example_job "?its ! 0" 0 ?r0] c0
    by (simp add: prod_eq_iff len w0)
  have w1: "world ?r1 = snd (analyzeResume revoked_env example_file example_job keyed_world)"
    by (simp add: process_item_snd_world len w0)
  have c1: "fst (analyzeResume revoked_env second_file example_job (world ?r1)) = Inl (Error ''API_KEY_MISSING'')"
  proof -
    have "generateContent revoked_env 1 = (\<lambda>req. Inl (Error ''API_KEY_MISSING''))"
      by (simp add: revoked_env_def flaky_env_def roomy_env_def)
    with c0 show ?thesis unfolding w1 by (intro second_call) simp_all
  qed
  have s1: "process_item revoked_env example_job (?its ! 1) 1 ?r1 = (True, ?r2)"
    using process_item_fst [of revoked_env example_job "?its ! 1" 1 ?r1] c1
    by (simp add: prod_eq_iff len)
  have "process_from revoked_env example_job ?its 0 ?r0 = (Some 1, ?r2)"
    using process_from_step(2) [OF len(1) s0] process_from_step(1) [OF len(2) s1] by simp
  from handleBatchAnalyze_outcome(1) [OF g(1,2,3), of revoked_env keyed_world 1 ?r2 1 2] this
  show ?thesis by (simp add: g)
qed

lemma process_item_trace_length:
  "length (batch_trace (snd (process_item e job item i r))) =
     length (batch_trace r) + (if fst (process_item e job item i r) then 1 else 2)"
  by (auto simp: process_item_def setBatchItems_def showToast_def Let_def case_prod_beta
      split: sum.splits)

lemma flaky_run:
  defines "its \<equiv> initialItems_of two_files"
  defines "r0 \<equiv> start_run (example_app two_files) keyed_world"
  defines "r1 \<equiv> snd (process_item flaky_env example_job (initialItems_of two_files ! 0) 0 r0)"
  defines "r2 \<equiv> snd (process_item flaky_env example_job (initialItems_of two_files ! Suc 0) (Suc 0) r1)"
  shows "handleBatchAnalyze flaky_env 1 2 (example_app two_files) keyed_world = finish_run flaky_env 1 2 example_job r2"
    and "map status (processedItems r2) = [completed, error]"
    and "length (batch_trace r2) = 5"
proof -
  have g: "hasApiKey (example_app two_files)" "files (example_app two_files) \<noteq> []"
    "description (jobContext (example_app two_files)) \<noteq> []"
    "jobContext (example_app two_files) = example_job" "files (example_app two_files) = two_files"
    by (simp_all add: example_app_def two_files_def example_job_def)
  have len: "0 < length its" "Suc 0 < length its" "\<not> Suc (Suc 0) < length its"
    "item_file (its ! 0) = example_file" "item_file (its ! Suc 0) = second_file"
    by (simp_all add: its_def initialItems_of_def two_files_def)
  have c0: "fst (analyzeResume flaky_env example_file example_job keyed_world) = Inr (Some (example_result 80)) \<and>
   length (requests (snd (analyzeResume flaky_env example_file example_job keyed_world))) = 1 \<and>
   storage (snd (analyzeResume flaky_env example_file example_job keyed_world)) = storage keyed_world"
    by (rule first_call) (simp_all add: flaky_env_def roomy_env_def)
  have w0: "world r0 = keyed_world" unfolding r0_def by (rule start_run_frame)
  have f0: "fst (process_item flaky_env example_job (its ! 0) 0 r0) = False"
    using c0 by (simp add: process_item_fst len w0)
  then have s0: "process_item flaky_env example_job (its ! 0) 0 r0 = (False, r1)"
    by (simp add: prod_eq_iff r1_def its_def)
  have w1: "world r1 = snd (analyzeResume flaky_env example_file example_job keyed_world)"
    using len(4) by (simp add: r1_def process_item_snd_world w0 its_def)
  have c1: "fst (analyzeResume flaky_env second_file example_job (world r1)) = Inl (Error ''503 Service Unavailable'')"
  proof -
    have "generateContent flaky_env 1 = (\<lambda>req. Inl (Error ''503 Service Unavailable''))"
      by (simp add: flaky_env_def roomy_env_def)
    with c0 show ?thesis unfolding w1 by (intro second_call) simp_all
  qed
  have f1: "fst (process_item flaky_env example_job (its ! Suc 0) (Suc 0) r1) = False"
    using c1 by (simp add: process_item_fst len)
  then have s1: "process_item flaky_env example_job (its ! Suc 0) (Suc 0) r1 = (False, r2)"
    by (simp add: prod_eq_iff r2_def its_def)
  have "process_from flaky_env example_job its 0 r0 = (None, r2)"
    using process_from_step(2) [OF len(1) s0] process_from_step(2) [OF len(2) s1]
      process_from_step(3) [OF len(3), of flaky_env example_job r2] by simp
  from handleBatchAnalyze_outcome(2) [OF g(1,2,3), of flaky_env keyed_world r2 1 2] this
  show "handleBatchAnalyze flaky_env 1 2 (example_app two_files) keyed_world = finish_run flaky_env 1 2 example_job r2"
    by (simp add: g its_def r0_def)
  have p0: "processedItems r0 = its"
    by (simp add: r0_def its_def start_run_def setBatchItems_def showToast_def Let_def example_app_def)
  have p1: "processedItems r1 = its[0 := (its ! 0)\<lparr>status := completed, result := Some (example_result 80)\<rparr>]"
    using c0 unfolding r1_def its_def [symmetric]
    by (simp add: process_item_processed len w0 p0)
  have p2: "processedItems r2 =
      (processedItems r1)[Suc 0 := (its ! Suc 0)\<lparr>status := error, error_message := Some ''503 Service Unavailable''\<rparr>]"
    using c1 unfolding r2_def its_def [symmetric]
    by (simp add: process_item_processed len)
  show "map status (processedItems r2) = [completed, error]"
    by (simp add: p2 p1 its_def initialItems_of_def two_files_def)
  have "length (batch_trace r0) = 1"
    by (simp add: r0_def start_run_def setBatchItems_def showToast_def Let_def)
  then show "length (batch_trace r2) = 5"
    using f0 f1 unfolding r2_def r1_def its_def [symmetric]
    by (simp add: process_item_trace_length)
qed

lemma example_app_facts:
  "hasApiKey (example_app fs)" "files (example_app fs) = fs"
  "description (jobContext (example_app fs)) = ''Builds compilers''"
  by (simp_all add: example_app_def example_job_def)

lemma example_ids:
  "distinct (map file_id two_files)" "distinct (map file_id three_files)"
  by (simp_all add: two_files_def three_files_def example_file_def second_file_def third_file_def)

subsection \<open>Runs stopped by a missing credential\<close>

lemma process_item_fst_missing:
  "fst (process_item e job item i r) =
     missing_credential (fst (analyzeResume e (item_file item) job (world r)))"
  by (auto simp: process_item_fst missing_credential_def split: sum.splits)

lemma process_from_reaches:
  assumes "k < length fs"
    and "missing_credential (analysis_of e job fs w k)"
    and "\<forall>j < k. \<not> missing_credential (analysis_of e job fs w j)"
    and "i \<le> k" and "world r = world_before e job fs w i"
  shows "fst (process_from e job (initialItems_of fs) i r) = Some k \<and>
         world (snd (process_from e job (initialItems_of fs) i r)) = world_before e job fs w (Suc k)"
  using assms(4,5)
proof (induction "k - i" arbitrary: i r)
  case 0
  then have i: "i = k" by simp
  let ?its = "initialItems_of fs"
  have l: "i < length ?its" "item_file (?its ! i) = fs ! i"
    using assms(1) i by (simp_all add: initialItems_of_length initialItems_of_nth)
  have "fst (process_item e job (?its ! i) i r)"
    using assms(2) "0.prems"(2) i l by (simp add: process_item_fst_missing analysis_of_def)
  then have s: "process_item e job (?its ! i) i r = (True, snd (process_item e job (?its ! i) i r))"
    by (simp add: prod_eq_iff)
  have "world (snd (process_item e job (?its ! i) i r)) = world_before e job fs w (Suc k)"
    using "0.prems"(2) i l by (simp add: process_item_snd_world)
  then show ?case using process_from_step(1) [OF l(1) s] i by simp
next
  case (Suc n)
  then have i: "i < k" by simp
  let ?its = "initialItems_of fs"
  have l: "i < length ?its" "item_file (?its ! i) = fs ! i"
    using assms(1) i by (simp_all add: initialItems_of_length initialItems_of_nth)
  have "\<not> fst (process_item e job (?its ! i) i r)"
    using assms(3) Suc.prems(2) i l by (simp add: process_item_fst_missing analysis_of_def)
  then have s: "process_item e job (?its ! i) i r = (False, snd (process_item e job (?its ! i) i r))"
    by (simp add: prod_eq_iff)
  have w: "world (snd (process_item e job (?its ! i) i r)) = world_before e job fs w (Suc i)"
    using Suc.prems(2) l by (simp add: process_item_snd_world)
  have "n = k - Suc i" using Suc.hyps(2) by simp
  from Suc.hyps(1) [OF this _ w] i process_from_step(2) [OF l(1) s]
  show ?case by simp
qed

lemma aborted_run_state:
  assumes "handleBatchAnalyze e t1 t2 a w = (aborted k, r)"
  shows "k < length (files a)"
    and "distinct (map file_id (files a)) \<Longrightarrow>
           \<forall>j < length (files a). k < j \<longrightarrow> status (batchItems (app r) ! j) = idle"
    and "length (requests (world r)) \<le> length (requests w) + Suc k"
    and "isSettingsOpen (app r)" and "\<not> hasApiKey (app r)" and "\<not> isProcessing (app r)"
    and "last (toasts (app r)) = (key_invalid, toast_error)"
    and "storage (world r) = storage w"
    and "historySessions (app r) = historySessions a"
proof -
  note h = handleBatchAnalyze_aborted [OF assms]
  show "\<forall>j < length (files a). k < j \<longrightarrow> status (batchItems (app r) ! j) = idle"
    if "distinct (map file_id (files a))"
    using handleBatchAnalyze_lists(4) [OF h(1,2,3) that assms refl] by blast
  from process_from_abort [OF h(4)]
  show "k < length (files a)" "isSettingsOpen (app r)" "\<not> hasApiKey (app r)" "\<not> isProcessing (app r)"
      "last (toasts (app r)) = (key_invalid, toast_error)"
    by (auto simp: initialItems_of_length)
  from process_from_frame [OF h(4)]
  show "storage (world r) = storage w" "historySessions (app r) = historySessions a"
    "length (requests (world r)) \<le> length (requests w) + Suc k"
    by (simp_all add: start_run_frame)
qed

lemma missing_credential_outcome:
  assumes "hasApiKey a" and "description (jobContext a) \<noteq> []" and "k < length (files a)"
    and "missing_credential (analysis_of e (jobContext a) (files a) w k)"
    and "\<forall>j < k. \<not> missing_credential (analysis_of e (jobContext a) (files a) w j)"
  shows "fst (handleBatchAnalyze e t1 t2 a w) = aborted k"
    and "world (snd (handleBatchAnalyze e t1 t2 a w)) = world_before e (jobContext a) (files a) w (Suc k)"
proof -
  let ?p = "process_from e (jobContext a) (initialItems_of (files a)) 0 (start_run a w)"
  have ne: "files a \<noteq> []" using assms(3) by auto
  have "world (start_run a w) = world_before e (jobContext a) (files a) w 0"
    by (simp add: start_run_frame)
  from process_from_reaches [OF assms(3,4,5) _ this]
  have p: "fst ?p = Some k" "world (snd ?p) = world_before e (jobContext a) (files a) w (Suc k)"
    by simp_all
  then have "?p = (Some k, snd ?p)" by (simp add: prod_eq_iff)
  from handleBatchAnalyze_outcome(1) [OF assms(1) ne assms(2) this, of t1 t2] p(2)
  show "fst (handleBatchAnalyze e t1 t2 a w) = aborted k"
    and "world (snd (handleBatchAnalyze e t1 t2 a w)) = world_before e (jobContext a) (files a) w (Suc k)"
    by simp_all
qed

lemma no_key_analysis:
  "analyzeResume e f job (world_of empty_storage) = (Inl (Error ''API_KEY_MISSING''), world_of empty_storage)"
  by (simp add: analyzeResume_def getAIClient_def getApiKey_def world_of_def empty_storage_def)

subsection \<open>Runs over two files, step by step\<close>

lemma process_item_batchItems:
  "batchItems (app (snd (process_item e job item i r))) =
     (case fst (analyzeResume e (item_file item) job (world r)) of
        Inr rv \<Rightarrow> replace_item item (item\<lparr>status := completed, result := rv\<rparr>)
                   (mark_analyzing item (batchItems (app r)))
      | Inl err \<Rightarrow>
          if message err = ''API_KEY_MISSING'' then mark_analyzing item (batchItems (app r))
          else replace_item item (item\<lparr>status := error, error_message := Some (message err)\<rparr>)
                 (mark_analyzing item (batchItems (app r))))"
  by (auto simp: process_item_def setBatchItems_def showToast_def Let_def case_prod_beta
      split: sum.splits)

lemma process_item_trace:
  "batch_trace (snd (process_item e job item i r)) =
     batch_trace r @ mark_analyzing item (batchItems (app r)) #
       (if fst (process_item e job item i r) then []
        else [batchItems (app (snd (process_item e job item i r)))])"
  by (auto simp: process_item_def setBatchItems_def showToast_def Let_def case_prod_beta
      split: sum.splits)

lemma start_run_lists:
  "batchItems (app (start_run a w)) = initialItems_of (files a)"
  "batch_trace (start_run a w) = [initialItems_of (files a)]"
  "processedItems (start_run a w) = initialItems_of (files a)"
  by (simp_all add: start_run_def setBatchItems_def showToast_def Let_def)

text \<open>A run over two files in which neither analysis reports a missing credential.\<close>

lemma two_item_run:
  assumes g: "hasApiKey a" "description (jobContext a) \<noteq> []" "length (files a) = 2"
    and a0: "\<not> missing_credential (analysis_of e (jobContext a) (files a) w 0)"
    and a1: "\<not> missing_credential (analysis_of e (jobContext a) (files a) w 1)"
  defines "its \<equiv> initialItems_of (files a)"
  defines "r1 \<equiv> snd (process_item e (jobContext a) (initialItems_of (files a) ! 0) 0 (start_run a w))"
  defines "r2 \<equiv> snd (process_item e (jobContext a) (initialItems_of (files a) ! 1) 1 r1)"
  shows "handleBatchAnalyze e t1 t2 a w = finish_run e t1 t2 (jobContext a) r2"
proof -
  have pos: "0 < length (files a)" using g(3) by arith
  then have ne: "files a \<noteq> []" by simp
  have len: "0 < length its" "1 < length its" "\<not> Suc 1 < length its"
    "item_file (its ! 0) = files a ! 0" "item_file (its ! 1) = files a ! 1"
    using g(3) by (simp_all add: its_def initialItems_of_length initialItems_of_nth)
  have w0: "world (start_run a w) = w" by (rule start_run_frame)
  have "\<not> fst (process_item e (jobContext a) (its ! 0) 0 (start_run a w))"
    using a0 len by (simp add: process_item_fst_missing analysis_of_def w0)
  then have s0: "process_item e (jobContext a) (its ! 0) 0 (start_run a w) = (False, r1)"
    by (simp add: prod_eq_iff r1_def its_def)
  have w1: "world r1 = world_before e (jobContext a) (files a) w 1"
    using len by (simp add: r1_def process_item_snd_world w0 its_def [symmetric])
  have "\<not> fst (process_item e (jobContext a) (its ! 1) 1 r1)"
    using a1 len by (simp add: process_item_fst_missing analysis_of_def w1)
  then have s1: "process_item e (jobContext a) (its ! 1) 1 r1 = (False, r2)"
    by (simp add: prod_eq_iff r2_def its_def)
  have "process_from e (jobContext a) its 0 (start_run a w) = (None, r2)"
    using process_from_step(2) [OF len(1) s0] process_from_step(2) [OF len(2) s1]
      process_from_step(3) [OF len(3), of e "jobContext a" r2] by simp
  from handleBatchAnalyze_outcome(2) [OF g(1) ne g(2), of e w r2 t1 t2] this
  show ?thesis by (simp add: its_def)
qed

lemma item_files_after_step:
  "map item_file (replace_item item x (mark_analyzing item bs)) =
     map (\<lambda>f. if file_id f = file_id (item_file item) then item_file x else f) (map item_file bs)"
  by (induction bs) (simp_all add: replace_item_def mark_analyzing_def)

lemma flaky_analyses:
  "analysis_of flaky_env job fs keyed_world 0 = Inr (Some (example_result 80))"
  "analysis_of flaky_env job fs keyed_world (Suc 0) = Inl (Error ''503 Service Unavailable'')"
proof -
  have c0: "fst (analyzeResume flaky_env (fs ! 0) job keyed_world) = Inr (Some (example_result 80)) \<and>
   length (requests (snd (analyzeResume flaky_env (fs ! 0) job keyed_world))) = 1 \<and>
   storage (snd (analyzeResume flaky_env (fs ! 0) job keyed_world)) = storage keyed_world"
    by (rule first_call) (simp_all add: flaky_env_def roomy_env_def)
  then show "analysis_of flaky_env job fs keyed_world 0 = Inr (Some (example_result 80))"
    by (simp add: analysis_of_def)
  have "generateContent flaky_env 1 = (\<lambda>req. Inl (Error ''503 Service Unavailable''))"
    by (simp add: flaky_env_def roomy_env_def)
  with c0 show "analysis_of flaky_env job fs keyed_world (Suc 0) = Inl (Error ''503 Service Unavailable'')"
    unfolding analysis_of_def world_before.simps by (intro second_call) simp_all
qed

lemma revoked_analyses:
  "analysis_of revoked_env job fs keyed_world 0 = Inr (Some (example_result 80))"
  "analysis_of revoked_env job fs keyed_world (Suc 0) = Inl (Error ''API_KEY_MISSING'')"
proof -
  have c0: "fst (analyzeResume revoked_env (fs ! 0) job keyed_world) = Inr (Some (example_result 80)) \<and>
   length (requests (snd (analyzeResume revoked_env (fs ! 0) job keyed_world))) = 1 \<and>
   storage (snd (analyzeResume revoked_env (fs ! 0) job keyed_world)) = storage keyed_world"
    by (rule first_call) (simp_all add: revoked_env_def flaky_env_def roomy_env_def)
  then show "analysis_of revoked_env job fs keyed_world 0 = Inr (Some (example_result 80))"
    by (simp add: analysis_of_def)
  have "generateContent revoked_env 1 = (\<lambda>req. Inl (Error ''API_KEY_MISSING''))"
    by (simp add: revoked_env_def flaky_env_def roomy_env_def)
  with c0 show "analysis_of revoked_env job fs keyed_world (Suc 0) = Inl (Error ''API_KEY_MISSING'')"
    unfolding analysis_of_def world_before.simps by (intro second_call) simp_all
qed

lemma twin_run:
  defines "run \<equiv> handleBatchAnalyze flaky_env 1 2 (example_app twin_files) keyed_world"
  shows "\<exists>sv. fst run = finished sv"
    and "map item_file (batchItems (app (snd run))) = [twin_file, twin_file]"
    and "map status (batch_trace (snd run) ! 1) = [analyzing, analyzing]"
    and "length (batch_trace (snd run)) = 5"
proof -
  let ?a = "example_app twin_files"
  let ?its = "initialItems_of twin_files"
  let ?r0 = "start_run ?a keyed_world"
  let ?r1 = "snd (process_item flaky_env example_job (?its ! 0) 0 ?r0)"
  let ?r2 = "snd (process_item flaky_env example_job (?its ! Suc 0) (Suc 0) ?r1)"
  have g: "hasApiKey ?a" "description (jobContext ?a) \<noteq> []" "length (files ?a) = 2"
    "jobContext ?a = example_job" "files ?a = twin_files"
    by (simp_all add: example_app_def twin_files_def example_job_def)
  have an: "analysis_of flaky_env example_job twin_files keyed_world 0 = Inr (Some (example_result 80))"
    "analysis_of flaky_env example_job twin_files keyed_world 1 = Inl (Error ''503 Service Unavailable'')"
    using flaky_analyses [of example_job twin_files] by simp_all
  have run: "run = finish_run flaky_env 1 2 example_job ?r2"
    unfolding run_def
    using two_item_run [OF g(1,2,3), of flaky_env keyed_world 1 2] an
    by (simp add: g missing_credential_def)
  note f = finish_run_result [of flaky_env 1 2 example_job ?r2 "fst run" "snd run"]
  show "\<exists>sv. fst run = finished sv" using f(1) run by simp
  have fl: "item_file (?its ! 0) = example_file" "item_file (?its ! Suc 0) = twin_file"
    by (simp_all add: initialItems_of_def twin_files_def)
  have w0: "world ?r0 = keyed_world" by (rule start_run_frame)
  have tf: "twin_files ! 0 = example_file" "twin_files ! Suc 0 = twin_file"
    by (simp_all add: twin_files_def)
  have a0: "fst (analyzeResume flaky_env example_file example_job keyed_world) = Inr (Some (example_result 80))"
    using an(1) by (simp add: analysis_of_def tf)
  have w1: "world ?r1 = snd (analyzeResume flaky_env example_file example_job keyed_world)"
    by (simp add: process_item_snd_world fl w0)
  have a1: "fst (analyzeResume flaky_env twin_file example_job (world ?r1)) = Inl (Error ''503 Service Unavailable'')"
    using an(2) by (simp add: analysis_of_def tf w1)
  have ids: "file_id example_file = ''f1''" "file_id twin_file = ''f1''"
    by (simp_all add: example_file_def twin_file_def)
  have e1: "batchItems (app ?r1) =
      replace_item (?its ! 0) ((?its ! 0)\<lparr>status := completed, result := Some (example_result 80)\<rparr>)
        (mark_analyzing (?its ! 0) ?its)"
    unfolding process_item_batchItems [of flaky_env example_job "?its ! 0" 0 ?r0]
    using a0 by (simp add: fl w0 start_run_lists g)
  have mf: "map item_file ?its = [example_file, twin_file]"
    by (simp add: initialItems_of_files twin_files_def)
  have b1: "map item_file (batchItems (app ?r1)) = [example_file, example_file]"
    unfolding e1 item_files_after_step mf
    by (simp add: fl ids)
  have e2: "batchItems (app ?r2) =
      replace_item (?its ! Suc 0)
        ((?its ! Suc 0)\<lparr>status := error, error_message := Some ''503 Service Unavailable''\<rparr>)
        (mark_analyzing (?its ! Suc 0) (batchItems (app ?r1)))"
    unfolding process_item_batchItems [of flaky_env example_job "?its ! Suc 0" "Suc 0" ?r1]
    using a1 by (simp add: fl)
  have b2: "map item_file (batchItems (app ?r2)) = [twin_file, twin_file]"
    unfolding e2 item_files_after_step b1
    by (simp add: fl ids)
  show "map item_file (batchItems (app (snd run))) = [twin_file, twin_file]"
    using f(2) run b2 by simp
  have f0: "\<not> fst (process_item flaky_env example_job (?its ! 0) 0 ?r0)"
    by (simp add: process_item_fst fl w0 a0)
  have t1: "batch_trace ?r1 ! 1 = mark_analyzing (?its ! 0) ?its" "1 < length (batch_trace ?r1)"
    using f0 by (simp_all add: process_item_trace [of flaky_env example_job "?its ! 0" 0 ?r0]
        start_run_lists g)
  have "batch_trace ?r2 ! 1 = mark_analyzing (?its ! 0) ?its"
    using t1 by (simp add: process_item_trace [of flaky_env example_job "?its ! Suc 0" "Suc 0" ?r1] nth_append)
  then have "batch_trace (snd run) ! 1 = mark_analyzing (?its ! 0) ?its"
    using f(4) run by simp
  then show "map status (batch_trace (snd run) ! 1) = [analyzing, analyzing]"
    by (simp add: mark_analyzing_def initialItems_of_def twin_files_def example_file_def twin_file_def)
  have f1: "\<not> fst (process_item flaky_env example_job (?its ! Suc 0) (Suc 0) ?r1)"
    by (simp add: process_item_fst fl a1)
  have "length (batch_trace ?r2) = 5"
    using f0 f1 by (simp add: process_item_trace_length start_run_lists)
  then show "length (batch_trace (snd run)) = 5"
    using f(4) run by simp
qed

text \<open>A run that is stopped by its first item.\<close>

lemma stopped_at_first:
  assumes g: "hasApiKey a" "description (jobContext a) \<noteq> []" "files a \<noteq> []"
    and a0: "missing_credential (analysis_of e (jobContext a) (files a) w 0)"
  shows "fst (handleBatchAnalyze e t1 t2 a w) = aborted 0"
    and "batchItems (app (snd (handleBatchAnalyze e t1 t2 a w))) =
           mark_analyzing (initialItems_of (files a) ! 0) (initialItems_of (files a))"
proof -
  let ?its = "initialItems_of (files a)"
  let ?r1 = "snd (process_item e (jobContext a) (?its ! 0) 0 (start_run a w))"
  have len: "0 < length ?its" "item_file (?its ! 0) = files a ! 0"
    using g(3) by (simp_all add: initialItems_of_length initialItems_of_nth)
  have "fst (process_item e (jobContext a) (?its ! 0) 0 (start_run a w))"
    using a0 len by (simp add: process_item_fst_missing analysis_of_def start_run_frame)
  then have s0: "process_item e (jobContext a) (?its ! 0) 0 (start_run a w) = (True, ?r1)"
    by (simp add: prod_eq_iff)
  from handleBatchAnalyze_outcome(1) [OF g(1,3,2) process_from_step(1) [OF len(1) s0], of t1 t2]
  have h: "handleBatchAnalyze e t1 t2 a w = (aborted 0, ?r1)" .
  then show "fst (handleBatchAnalyze e t1 t2 a w) = aborted 0" by simp
  from process_item_abort(2) [OF s0]
  show "batchItems (app (snd (handleBatchAnalyze e t1 t2 a w))) = mark_analyzing (?its ! 0) ?its"
    by (simp add: h start_run_lists)
qed

subsection \<open>What the list on display keeps when ids repeat\<close>

lemma batch_shape_length: "batch_shape fs i b \<Longrightarrow> length b = length fs"
  unfolding batch_shape_def by (metis length_map)

lemma batch_shape_id:
  "batch_shape fs i b \<Longrightarrow> j < length fs \<Longrightarrow> file_id (item_file (b ! j)) = file_id (fs ! j)"
  unfolding batch_shape_def by (metis length_map nth_map)

lemma batch_shape_start: "batch_shape fs 0 (initialItems_of fs)"
  by (simp add: batch_shape_def initialItems_of_def comp_def)

lemma batch_shape_step:
  assumes s: "batch_shape fs i b" and i: "i < length fs"
    and item: "file_id (item_file item) = file_id (fs ! i)"
    and x: "item_file x = item_file item" "terminal x"
  shows "batch_shape fs (Suc i) (replace_item item x (mark_analyzing item b))"
proof -
  let ?b = "replace_item item x (mark_analyzing item b)"
  have len: "length b = length fs" using s by (rule batch_shape_length)
  have nth: "?b ! j = (if file_id (item_file (b ! j)) = file_id (item_file item) then x else b ! j)"
    if "j < length b" for j
    using that by (simp add: replace_item_def mark_analyzing_def)
  have ids: "map (\<lambda>p. file_id (item_file p)) ?b = map file_id fs"
  proof -
    have "map (\<lambda>p. file_id (item_file p)) ?b = map (\<lambda>p. file_id (item_file p)) b"
      by (rule nth_equalityI) (simp_all add: replace_item_def mark_analyzing_def x(1))
    with s show ?thesis by (simp add: batch_shape_def)
  qed
  have before: "terminal (?b ! j)" if "j < length ?b" "j < Suc i" for j
  proof -
    have j: "j < length b" using that(1) by (simp add: replace_item_def mark_analyzing_def)
    show ?thesis
    proof (cases "j = i")
      case True
      with batch_shape_id [OF s i] item j show ?thesis by (simp add: nth x(2))
    next
      case False
      with that(2) have "j < i" by simp
      with s j have "terminal (b ! j)" by (simp add: batch_shape_def)
      with j show ?thesis by (simp add: nth x(2))
    qed
  qed
  have after: "status (?b ! j) = idle \<or> terminal (?b ! j)" if "j < length ?b" "Suc i \<le> j" for j
  proof -
    have j: "j < length b" using that(1) by (simp add: replace_item_def mark_analyzing_def)
    from s j that(2) have "status (b ! j) = idle \<or> terminal (b ! j)" by (simp add: batch_shape_def)
    with j show ?thesis by (auto simp: nth x(2))
  qed
  from ids before after show ?thesis unfolding batch_shape_def by blast
qed

lemma batch_shape_abort:
  assumes s: "batch_shape fs i b" and i: "i < length fs"
    and item: "file_id (item_file item) = file_id (fs ! i)"
  shows "length (mark_analyzing item b) = length fs"
    and "map (\<lambda>p. file_id (item_file p)) (mark_analyzing item b) = map file_id fs"
    and "status (mark_analyzing item b ! i) = analyzing"
    and "j < length fs \<Longrightarrow> status (mark_analyzing item b ! j) = idle \<Longrightarrow> i < j"
proof -
  have len: "length b = length fs" using s by (rule batch_shape_length)
  then show "length (mark_analyzing item b) = length fs" by (simp add: mark_analyzing_def)
  have "map (\<lambda>p. file_id (item_file p)) (mark_analyzing item b) = map (\<lambda>p. file_id (item_file p)) b"
    by (rule nth_equalityI) (simp_all add: mark_analyzing_def)
  with s show "map (\<lambda>p. file_id (item_file p)) (mark_analyzing item b) = map file_id fs"
    by (simp add: batch_shape_def)
  from batch_shape_id [OF s i] item i len
  show "status (mark_analyzing item b ! i) = analyzing" by (simp add: mark_analyzing_def)
  assume j: "j < length fs" and st: "status (mark_analyzing item b ! j) = idle"
  show "i < j"
  proof (rule ccontr)
    assume "\<not> i < j"
    then consider "j = i" | "j < i" by arith
    then show False
    proof cases
      case 1
      with batch_shape_id [OF s i] item i len st show False by (simp add: mark_analyzing_def)
    next
      case 2
      with s j len have "terminal (b ! j)" by (simp add: batch_shape_def)
      with st j len show False by (auto simp: mark_analyzing_def terminal_def split: if_splits)
    qed
  qed
qed

lemma process_from_shape:
  assumes "process_from e job (initialItems_of fs) i r = (out, r')"
    and "batch_shape fs i (batchItems (app r))"
  shows "length (batchItems (app r')) = length fs"
    and "map (\<lambda>p. file_id (item_file p)) (batchItems (app r')) = map file_id fs"
    and "out = None \<Longrightarrow> j < length fs \<Longrightarrow> terminal (batchItems (app r') ! j)"
    and "out = Some k \<Longrightarrow> status (batchItems (app r') ! k) = analyzing"
    and "out = Some k \<Longrightarrow> j < length fs \<Longrightarrow> status (batchItems (app r') ! j) = idle \<Longrightarrow> k < j"
proof -
  have "batch_shape fs i (batchItems (app r)) \<longrightarrow>
      length (batchItems (app r')) = length fs \<and>
      map (\<lambda>p. file_id (item_file p)) (batchItems (app r')) = map file_id fs \<and>
      (out = None \<longrightarrow> (\<forall>j < length fs. terminal (batchItems (app r') ! j))) \<and>
      (\<forall>k. out = Some k \<longrightarrow> status (batchItems (app r') ! k) = analyzing \<and>
         (\<forall>j < length fs. status (batchItems (app r') ! j) = idle \<longrightarrow> k < j))"
    using assms(1)
  proof (induction rule: process_from_induct)
    case (stop i r)
    then have i: "length fs \<le> i" by (simp add: initialItems_of_length)
    show ?case
    proof
      assume s: "batch_shape fs i (batchItems (app r))"
      note len = batch_shape_length [OF s]
      have "terminal (batchItems (app r) ! j)" if "j < length fs" for j
        using s i that len by (simp add: batch_shape_def)
      with len s show "length (batchItems (app r)) = length fs \<and>
        map (\<lambda>p. file_id (item_file p)) (batchItems (app r)) = map file_id fs \<and>
        (None = None \<longrightarrow> (\<forall>j < length fs. terminal (batchItems (app r) ! j))) \<and>
        (\<forall>k. None = Some k \<longrightarrow> status (batchItems (app r) ! k) = analyzing \<and>
           (\<forall>j < length fs. status (batchItems (app r) ! j) = idle \<longrightarrow> k < j))"
        by (simp add: batch_shape_def)
    qed
  next
    case (abort i r r1)
    then have i: "i < length fs" by (simp add: initialItems_of_length)
    then have item: "file_id (item_file (initialItems_of fs ! i)) = file_id (fs ! i)"
      by (simp add: initialItems_of_nth)
    show ?case
    proof
      assume s: "batch_shape fs i (batchItems (app r))"
      note b = batch_shape_abort [OF s i item]
      from b show "length (batchItems (app r1)) = length fs \<and>
        map (\<lambda>p. file_id (item_file p)) (batchItems (app r1)) = map file_id fs \<and>
        (Some i = None \<longrightarrow> (\<forall>j < length fs. terminal (batchItems (app r1) ! j))) \<and>
        (\<forall>k. Some i = Some k \<longrightarrow> status (batchItems (app r1) ! k) = analyzing \<and>
           (\<forall>j < length fs. status (batchItems (app r1) ! j) = idle \<longrightarrow> k < j))"
        by (simp add: process_item_abort(2) [OF abort(2)])
    qed
  next
    case (cont i r r1 out r')
    then have i: "i < length fs" by (simp add: initialItems_of_length)
    then have item: "file_id (item_file (initialItems_of fs ! i)) = file_id (fs ! i)"
      by (simp add: initialItems_of_nth)
    show ?case
    proof
      assume s: "batch_shape fs i (batchItems (app r))"
      from process_item_continue [OF cont(2)] obtain x where
        x: "terminal x" "item_file x = item_file (initialItems_of fs ! i)"
        and b: "batchItems (app r1) =
                  replace_item (initialItems_of fs ! i) x
                    (mark_analyzing (initialItems_of fs ! i) (batchItems (app r)))"
        by blast
      from batch_shape_step [OF s i item x(2,1)] have "batch_shape fs (Suc i) (batchItems (app r1))"
        by (simp add: b)
      with cont(4) show "length (batchItems (app r')) = length fs \<and>
        map (\<lambda>p. file_id (item_file p)) (batchItems (app r')) = map file_id fs \<and>
        (out = None \<longrightarrow> (\<forall>j < length fs. terminal (batchItems (app r') ! j))) \<and>
        (\<forall>k. out = Some k \<longrightarrow> status (batchItems (app r') ! k) = analyzing \<and>
           (\<forall>j < length fs. status (batchItems (app r') ! j) = idle \<longrightarrow> k < j))"
        by blast
    qed
  qed
  with assms(2) show "length (batchItems (app r')) = length fs"
    and "map (\<lambda>p. file_id (item_file p)) (batchItems (app r')) = map file_id fs"
    and "out = None \<Longrightarrow> j < length fs \<Longrightarrow> terminal (batchItems (app r') ! j)"
    and "out = Some k \<Longrightarrow> status (batchItems (app r') ! k) = analyzing"
    and "out = Some k \<Longrightarrow> j < length fs \<Longrightarrow> status (batchItems (app r') ! j) = idle \<Longrightarrow> k < j"
    by blast+
qed

lemma handleBatchAnalyze_shape:
  assumes g: "hasApiKey a" "files a \<noteq> []" "description (jobContext a) \<noteq> []"
    and run: "handleBatchAnalyze e t1 t2 a w = (out, r)"
  shows "length (batchItems (app r)) = length (files a)"
    and "map (\<lambda>p. file_id (item_file p)) (batchItems (app r)) = map file_id (files a)"
    and "out = finished sv \<Longrightarrow> j < length (files a) \<Longrightarrow> terminal (batchItems (app r) ! j)"
    and "out = aborted k \<Longrightarrow> status (batchItems (app r) ! k) = analyzing"
    and "j < length (files a) \<Longrightarrow> status (batchItems (app r) ! j) = idle \<Longrightarrow> \<exists>k < j. out = aborted k"
proof -
  have s0: "batch_shape (files a) 0 (batchItems (app (start_run a w)))"
    by (simp add: start_run_lists batch_shape_start)
  from handleBatchAnalyze_started [OF g run]
  consider k where "out = aborted k"
      "process_from e (jobContext a) (initialItems_of (files a)) 0 (start_run a w) = (Some k, r)"
    | r5 where "process_from e (jobContext a) (initialItems_of (files a)) 0 (start_run a w) = (None, r5)"
      "finish_run e t1 t2 (jobContext a) r5 = (out, r)"
    by blast
  then have "length (batchItems (app r)) = length (files a) \<and>
    map (\<lambda>p. file_id (item_file p)) (batchItems (app r)) = map file_id (files a) \<and>
    (\<forall>sv. out = finished sv \<longrightarrow> (\<forall>j < length (files a). terminal (batchItems (app r) ! j))) \<and>
    (\<forall>k. out = aborted k \<longrightarrow> status (batchItems (app r) ! k) = analyzing) \<and>
    (\<forall>j < length (files a). status (batchItems (app r) ! j) = idle \<longrightarrow> (\<exists>k < j. out = aborted k))"
  proof cases
    case 1
    note p = process_from_shape [OF 1(2) s0]
    from p(1,2) p(4) [OF refl] p(5) [OF refl] show ?thesis
      by (auto simp: 1(1))
  next
    case 2
    note p = process_from_shape [OF 2(1) s0]
    note f = finish_run_result [OF 2(2)]
    from f(1) obtain sv where out: "out = finished sv" by blast
    have t: "terminal (batchItems (app r) ! j)" if "j < length (files a)" for j
      using p(3) [OF refl that] by (simp add: f(2))
    then have "\<not> status (batchItems (app r) ! j) = idle" if "j < length (files a)" for j
      using that by (fastforce simp: terminal_def)
    with p(1,2) t show ?thesis
      by (simp add: f(2) out)
  qed
  then show "length (batchItems (app r)) = length (files a)"
    and "map (\<lambda>p. file_id (item_file p)) (batchItems (app r)) = map file_id (files a)"
    and "out = finished sv \<Longrightarrow> j < length (files a) \<Longrightarrow> terminal (batchItems (app r) ! j)"
    and "out = aborted k \<Longrightarrow> status (batchItems (app r) ! k) = analyzing"
    and "j < length (files a) \<Longrightarrow> status (batchItems (app r) ! j) = idle \<Longrightarrow> \<exists>k < j. out = aborted k"
    by blast+
qed

subsection \<open>The claims about a batch\<close>

text \<open>
  Claim C1, as amended. A batch is run by a call of \<^verbatim>\<open>handleBatchAnalyze\<close> with the credential
  flag \<^verbatim>\<open>hasApiKey\<close> set (the button that calls the handler does so only then), a file list
  that is not empty and a job that has a description. The call leaves as many items on
  display as there are files, each with the id of the file at its position; when the ids
  of the files are pairwise distinct, each is an item of the file at its position: one
  item per file, in the order of the files. When the loop ran to its end every item is
  completed or in error. An item is idle only when an item before it made the handler
  return for want of a credential; that item itself stays marked as being analysed. With
  pairwise distinct ids, moreover, the list handed to the history store is the one on
  display, and the items before the one that stopped the run are completed or in error.
\<close>

theorem batch_one_item_per_file:
  assumes "hasApiKey a" and "files a \<noteq> []" and "description (jobContext a) \<noteq> []"
    and "handleBatchAnalyze e t1 t2 a w = (out, r)"
  shows "length (batchItems (app r)) = length (files a) \<and>
         map (\<lambda>p. file_id (item_file p)) (batchItems (app r)) = map file_id (files a) \<and>
         (distinct (map file_id (files a)) \<longrightarrow> map item_file (batchItems (app r)) = files a) \<and>
         (\<forall>sv. out = finished sv \<longrightarrow>
            (\<forall>p \<in> set (batchItems (app r)). status p = completed \<or> status p = error)) \<and>
         (\<forall>j < length (files a). status (batchItems (app r) ! j) = idle \<longrightarrow> (\<exists>k < j. out = aborted k)) \<and>
         (\<forall>k. out = aborted k \<longrightarrow> k < length (files a) \<and> status (batchItems (app r) ! k) = analyzing) \<and>
         (distinct (map file_id (files a)) \<longrightarrow>
            (\<forall>sv. out = finished sv \<longrightarrow> processedItems r = batchItems (app r)) \<and>
            (\<forall>k. out = aborted k \<longrightarrow>
               (\<forall>j < k. status (batchItems (app r) ! j) = completed \<or> status (batchItems (app r) ! j) = error)))"
proof -
  note s = handleBatchAnalyze_shape [OF assms]
  have fin: "\<forall>sv. out = finished sv \<longrightarrow>
            (\<forall>p \<in> set (batchItems (app r)). status p = completed \<or> status p = error)"
  proof (intro allI impI ballI)
    fix sv p assume out: "out = finished sv" and "p \<in> set (batchItems (app r))"
    then obtain j where "j < length (files a)" "p = batchItems (app r) ! j"
      by (auto simp: in_set_conv_nth s(1))
    with s(3) [OF out] show "status p = completed \<or> status p = error"
      by (simp add: terminal_def)
  qed
  have idle: "\<forall>j < length (files a). status (batchItems (app r) ! j) = idle \<longrightarrow> (\<exists>k < j. out = aborted k)"
    using s(5) by blast
  have ab: "\<forall>k. out = aborted k \<longrightarrow> k < length (files a) \<and> status (batchItems (app r) ! k) = analyzing"
  proof (intro allI impI)
    fix k assume out: "out = aborted k"
    from handleBatchAnalyze_aborted(4) [OF assms(4) [unfolded out]]
    have "k < length (files a)"
      using process_from_abort [of e "jobContext a" "initialItems_of (files a)" 0 "start_run a w" "Some k" r]
      by (simp add: initialItems_of_length)
    with s(4) [OF out] show "k < length (files a) \<and> status (batchItems (app r) ! k) = analyzing" by simp
  qed
  have d: "map item_file (batchItems (app r)) = files a \<and>
            (\<forall>sv. out = finished sv \<longrightarrow> processedItems r = batchItems (app r)) \<and>
            (\<forall>k. out = aborted k \<longrightarrow>
               (\<forall>j < k. status (batchItems (app r) ! j) = completed \<or> status (batchItems (app r) ! j) = error))"
    if "distinct (map file_id (files a))"
  proof -
    note l = handleBatchAnalyze_lists [OF assms(1,2,3) that assms(4)]
    from l(2) l(3) l(4) show ?thesis by (auto simp: terminal_def)
  qed
  from s(1,2) fin idle ab d show ?thesis by blast
qed

theorem batch_one_item_per_file_witness:
  "hasApiKey (example_app two_files) \<and>
   files (example_app two_files) = [example_file, second_file] \<and>
   description (jobContext (example_app two_files)) = ''Builds compilers'' \<and>
   distinct (map file_id (files (example_app two_files))) \<and>
   (\<exists>sv. fst (handleBatchAnalyze flaky_env 1 2 (example_app two_files) keyed_world) = finished sv) \<and>
   map item_file (batchItems (app (snd (handleBatchAnalyze flaky_env 1 2 (example_app two_files) keyed_world))))
     = [example_file, second_file] \<and>
   map status (batchItems (app (snd (handleBatchAnalyze flaky_env 1 2 (example_app two_files) keyed_world))))
     = [completed, error] \<and>
   fst (handleBatchAnalyze revoked_env 1 2 (example_app three_files) keyed_world) = aborted 1 \<and>
   length (batchItems (app (snd (handleBatchAnalyze revoked_env 1 2 (example_app three_files) keyed_world)))) = 3 \<and>
   status (batchItems (app (snd (handleBatchAnalyze revoked_env 1 2 (example_app three_files) keyed_world))) ! 1)
     = analyzing \<and>
   files (example_app twin_files) = [example_file, twin_file] \<and>
   (\<exists>sv. fst (handleBatchAnalyze flaky_env 1 2 (example_app twin_files) keyed_world) = finished sv) \<and>
   map (\<lambda>p. file_id (item_file p))
     (batchItems (app (snd (handleBatchAnalyze flaky_env 1 2 (example_app twin_files) keyed_world))))
     = [''f1'', ''f1''] \<and>
   list_all (\<lambda>p. status p = completed \<or> status p = error)
     (batchItems (app (snd (handleBatchAnalyze flaky_env 1 2 (example_app twin_files) keyed_world))))"
proof -
  let ?run = "handleBatchAnalyze flaky_env 1 2 (example_app two_files) keyed_world"
  let ?stopped = "handleBatchAnalyze revoked_env 1 2 (example_app three_files) keyed_world"
  let ?twin = "handleBatchAnalyze flaky_env 1 2 (example_app twin_files) keyed_world"
  have h3: "hasApiKey (example_app three_files)" "files (example_app three_files) \<noteq> []"
    "description (jobContext (example_app three_files)) \<noteq> []"
    by (simp_all add: example_app_facts) (simp add: three_files_def)
  have stopped: "?stopped = (aborted 1, snd ?stopped)"
    using revoked_outcome by (simp add: prod_eq_iff)
  from batch_one_item_per_file [OF h3 stopped]
  have stuck: "status (batchItems (app (snd ?stopped)) ! 1) = analyzing"
    and l3: "length (batchItems (app (snd ?stopped))) = length (files (example_app three_files))"
    by blast+
  have h: "hasApiKey (example_app two_files)" "files (example_app two_files) \<noteq> []"
    "description (jobContext (example_app two_files)) \<noteq> []"
    by (simp_all add: example_app_facts) (simp add: two_files_def)
  have d: "distinct (map file_id (files (example_app two_files)))"
    by (simp add: example_app_facts example_ids)
  have run: "?run = (fst ?run, snd ?run)" by simp
  from finish_run_result(1,3) [of flaky_env 1 2 example_job _ "fst ?run" "snd ?run"] flaky_run(1,2)
  obtain sv where out: "fst ?run = finished sv"
    and st: "map status (processedItems (snd ?run)) = [completed, error]"
    by (metis prod.collapse)
  from batch_one_item_per_file [OF h run] d out st
  have two: "map item_file (batchItems (app (snd ?run))) = files (example_app two_files)"
    "map status (batchItems (app (snd ?run))) = [completed, error]"
    by simp_all
  have ht: "hasApiKey (example_app twin_files)" "files (example_app twin_files) \<noteq> []"
    "description (jobContext (example_app twin_files)) \<noteq> []"
    by (simp_all add: example_app_facts) (simp add: twin_files_def)
  have twin: "?twin = (fst ?twin, snd ?twin)" by simp
  from twin_run(1) obtain sv' where out': "fst ?twin = finished sv'" by blast
  from batch_one_item_per_file [OF ht twin] out'
  have ids: "map (\<lambda>p. file_id (item_file p)) (batchItems (app (snd ?twin))) =
               map file_id (files (example_app twin_files))"
    and allterm: "\<forall>p \<in> set (batchItems (app (snd ?twin))). status p = completed \<or> status p = error"
    by blast+
  from ids have ids': "map (\<lambda>p. file_id (item_file p)) (batchItems (app (snd ?twin))) = [''f1'', ''f1'']"
    by (simp add: example_app_facts twin_files_def example_file_def twin_file_def)
  from allterm have allterm': "list_all (\<lambda>p. status p = completed \<or> status p = error) (batchItems (app (snd ?twin)))"
    by (simp add: list_all_iff)
  from h(1) d out two stuck l3 revoked_outcome out' ids' allterm' show ?thesis
    by (simp add: example_app_facts two_files_def twin_files_def three_files_def)
qed

text \<open>
  The claim as first stated asks for one item per input file whatever the ids are. The two
  updates of the list on display tell the items apart by the id of their file only: when
  two files share an id, both entries are replaced whenever either file is processed, and
  at the end of the run both are items of the second file. The first file has no item.
\<close>

theorem batch_shared_id_counterexample:
  "hasApiKey (example_app twin_files) \<and>
   files (example_app twin_files) = [example_file, twin_file] \<and>
   name example_file = ''ada.txt'' \<and> file_id example_file = ''f1'' \<and> file_id twin_file = ''f1'' \<and>
   description (jobContext (example_app twin_files)) = ''Builds compilers'' \<and>
   (\<exists>sv. fst (handleBatchAnalyze flaky_env 1 2 (example_app twin_files) keyed_world) = finished sv) \<and>
   map item_file (batchItems (app (snd (handleBatchAnalyze flaky_env 1 2 (example_app twin_files) keyed_world))))
     = [twin_file, twin_file] \<and>
   map name [twin_file, twin_file] = [''bob.txt'', ''bob.txt'']"
  using twin_run(1,2)
  by (simp add: example_app_facts twin_files_def) (simp add: example_file_def twin_file_def)

text \<open>
  Claim C2, as amended. Let the analysis of the item at index \<open>k\<close> be the first of a batch to
  fail with the message \<^verbatim>\<open>API_KEY_MISSING\<close>. Then the handler returns while it processes
  item \<open>k\<close>. No analysis is invoked after that one: the world is the one the analysis of
  item \<open>k\<close> has left, with at most \<open>k + 1\<close> requests sent, one per item started. The settings
  are open, the credential flag is cleared, the processing flag is off and the last toast
  reports the invalid key. \<^verbatim>\<open>saveSession\<close> has not run: the storage and the list of sessions
  are what they were. When the ids of the files are pairwise distinct, every item after
  \<open>k\<close> is still idle.
\<close>

theorem missing_credential_stops_batch:
  assumes "hasApiKey a" and "description (jobContext a) \<noteq> []" and "k < length (files a)"
    and "missing_credential (analysis_of e (jobContext a) (files a) w k)"
    and "\<forall>j < k. \<not> missing_credential (analysis_of e (jobContext a) (files a) w j)"
  shows "fst (handleBatchAnalyze e t1 t2 a w) = aborted k \<and>
         (distinct (map file_id (files a)) \<longrightarrow>
            (\<forall>j < length (files a). k < j \<longrightarrow>
               status (batchItems (app (snd (handleBatchAnalyze e t1 t2 a w))) ! j) = idle)) \<and>
         world (snd (handleBatchAnalyze e t1 t2 a w)) = world_before e (jobContext a) (files a) w (Suc k) \<and>
         length (requests (world (snd (handleBatchAnalyze e t1 t2 a w)))) \<le> length (requests w) + Suc k \<and>
         isSettingsOpen (app (snd (handleBatchAnalyze e t1 t2 a w))) \<and>
         \<not> hasApiKey (app (snd (handleBatchAnalyze e t1 t2 a w))) \<and>
         \<not> isProcessing (app (snd (handleBatchAnalyze e t1 t2 a w))) \<and>
         last (toasts (app (snd (handleBatchAnalyze e t1 t2 a w)))) = (key_invalid, toast_error) \<and>
         storage (world (snd (handleBatchAnalyze e t1 t2 a w))) = storage w \<and>
         historySessions (app (snd (handleBatchAnalyze e t1 t2 a w))) = historySessions a"
proof -
  let ?h = "handleBatchAnalyze e t1 t2 a w"
  note o = missing_credential_outcome [OF assms, of t1 t2]
  from o(1) have run: "?h = (aborted k, snd ?h)" by (simp add: prod_eq_iff)
  note s = aborted_run_state [OF run]
  from o s(3-9) s(2) show ?thesis by blast
qed

theorem missing_credential_stops_batch_witness:
  "hasApiKey (example_app three_files) \<and>
   description (jobContext (example_app three_files)) = ''Builds compilers'' \<and>
   length (files (example_app three_files)) = 3 \<and>
   distinct (map file_id (files (example_app three_files))) \<and>
   analysis_of revoked_env example_job three_files keyed_world 0 = Inr (Some (example_result 80)) \<and>
   analysis_of revoked_env example_job three_files keyed_world 1 = Inl (Error ''API_KEY_MISSING'') \<and>
   fst (handleBatchAnalyze revoked_env 1 2 (example_app three_files) keyed_world) = aborted 1 \<and>
   status (batchItems (app (snd (handleBatchAnalyze revoked_env 1 2 (example_app three_files) keyed_world))) ! 2)
     = idle \<and>
   length (requests (world (snd (handleBatchAnalyze revoked_env 1 2 (example_app three_files) keyed_world)))) \<le> 2 \<and>
   isSettingsOpen (app (snd (handleBatchAnalyze revoked_env 1 2 (example_app three_files) keyed_world))) \<and>
   \<not> hasApiKey (app (snd (handleBatchAnalyze revoked_env 1 2 (example_app three_files) keyed_world))) \<and>
   \<not> isProcessing (app (snd (handleBatchAnalyze revoked_env 1 2 (example_app three_files) keyed_world))) \<and>
   storage (world (snd (handleBatchAnalyze revoked_env 1 2 (example_app three_files) keyed_world)))
     = storage keyed_world \<and>
   historySessions (app (snd (handleBatchAnalyze revoked_env 1 2 (example_app three_files) keyed_world))) = [] \<and>
   analysis_of roomy_env example_job three_files (world_of empty_storage) 0 = Inl (Error ''API_KEY_MISSING'') \<and>
   fst (handleBatchAnalyze roomy_env 1 2 (example_app three_files) (world_of empty_storage)) = aborted 0 \<and>
   status (batchItems (app (snd (handleBatchAnalyze roomy_env 1 2 (example_app three_files) (world_of empty_storage)))) ! 1)
     = idle \<and>
   status (batchItems (app (snd (handleBatchAnalyze roomy_env 1 2 (example_app three_files) (world_of empty_storage)))) ! 2)
     = idle \<and>
   requests (world (snd (handleBatchAnalyze roomy_env 1 2 (example_app three_files) (world_of empty_storage)))) = []"
proof -
  let ?a = "example_app three_files"
  let ?run = "handleBatchAnalyze revoked_env 1 2 ?a keyed_world"
  let ?nokey = "handleBatchAnalyze roomy_env 1 2 ?a (world_of empty_storage)"
  have g: "hasApiKey ?a" "description (jobContext ?a) \<noteq> []"
    by (simp_all add: example_app_def example_job_def)
  have e: "jobContext ?a = example_job" "files ?a = three_files" "historySessions ?a = []"
    by (simp_all add: example_app_def)
  have n: "length three_files = 3" by (simp add: three_files_def)
  have d: "distinct (map file_id (files ?a))" by (simp add: e example_ids)
  have rq: "requests keyed_world = []" by (simp add: keyed_world_def world_of_def)
  note an = revoked_analyses [of example_job three_files]
  have k: "Suc 0 < length (files ?a)" "0 < length (files ?a)" by (simp_all add: e n)
  have m: "missing_credential (analysis_of revoked_env (jobContext ?a) (files ?a) keyed_world (Suc 0))"
    "\<forall>j < Suc 0. \<not> missing_credential (analysis_of revoked_env (jobContext ?a) (files ?a) keyed_world j)"
    by (simp_all add: e an missing_credential_def)
  from missing_credential_stops_batch [OF g k(1) m, of 1 2] d
  have out: "fst ?run = aborted (Suc 0)"
    and idle_after: "\<forall>j < length (files ?a). Suc 0 < j \<longrightarrow> status (batchItems (app (snd ?run)) ! j) = idle"
    and rest: "length (requests (world (snd ?run))) \<le> length (requests keyed_world) + Suc (Suc 0)"
      "isSettingsOpen (app (snd ?run))" "\<not> hasApiKey (app (snd ?run))" "\<not> isProcessing (app (snd ?run))"
      "storage (world (snd ?run)) = storage keyed_world"
      "historySessions (app (snd ?run)) = historySessions ?a"
    by blast+
  from idle_after have i2: "status (batchItems (app (snd ?run)) ! 2) = idle" by (simp add: e n)
  have an0: "analysis_of roomy_env example_job three_files (world_of empty_storage) 0 = Inl (Error ''API_KEY_MISSING'')"
    by (simp add: analysis_of_def no_key_analysis)
  then have m0: "missing_credential (analysis_of roomy_env (jobContext ?a) (files ?a) (world_of empty_storage) 0)"
    "\<forall>j < (0::nat). \<not> missing_credential (analysis_of roomy_env (jobContext ?a) (files ?a) (world_of empty_storage) j)"
    by (simp_all add: e missing_credential_def)
  from missing_credential_stops_batch [OF g k(2) m0, of 1 2] d
  have out0: "fst ?nokey = aborted 0"
    and idle0: "\<forall>j < length (files ?a). 0 < j \<longrightarrow> status (batchItems (app (snd ?nokey)) ! j) = idle"
    and w0: "world (snd ?nokey) = world_before roomy_env (jobContext ?a) (files ?a) (world_of empty_storage) (Suc 0)"
    by blast+
  have "requests (world_before roomy_env (jobContext ?a) (files ?a) (world_of empty_storage) (Suc 0)) = []"
    by (simp add: no_key_analysis) (simp add: world_of_def)
  then have rq0: "requests (world (snd ?nokey)) = []"
    by (simp only: w0)
  from idle0 have i0: "status (batchItems (app (snd ?nokey)) ! 1) = idle"
    "status (batchItems (app (snd ?nokey)) ! 2) = idle"
    by (simp_all add: e n)
  from g(1) d out i2 rest an an0 out0 i0 rq0 show ?thesis
    by (simp add: e n rq example_job_def)
qed

text \<open>
  The claim as first stated leaves every later item idle whatever the ids are. When the
  second file shares its id with the first and no key is stored, the update that marks the
  first item as being analysed marks both, the analysis of the first item stops the run,
  and the second item is left marked as being analysed.
\<close>

theorem stopped_batch_shared_id_counterexample:
  "hasApiKey (example_app twin_files) \<and>
   files (example_app twin_files) = [example_file, twin_file] \<and>
   file_id example_file = ''f1'' \<and> file_id twin_file = ''f1'' \<and>
   description (jobContext (example_app twin_files)) = ''Builds compilers'' \<and>
   analysis_of roomy_env example_job twin_files (world_of empty_storage) 0 = Inl (Error ''API_KEY_MISSING'') \<and>
   fst (handleBatchAnalyze roomy_env 1 2 (example_app twin_files) (world_of empty_storage)) = aborted 0 \<and>
   map status (batchItems (app (snd (handleBatchAnalyze roomy_env 1 2 (example_app twin_files) (world_of empty_storage)))))
     = [analyzing, analyzing]"
proof -
  let ?a = "example_app twin_files"
  have an: "analysis_of roomy_env example_job twin_files (world_of empty_storage) 0 = Inl (Error ''API_KEY_MISSING'')"
    by (simp add: analysis_of_def no_key_analysis)
  have g: "hasApiKey ?a" "description (jobContext ?a) \<noteq> []" "files ?a \<noteq> []"
    "jobContext ?a = example_job" "files ?a = twin_files"
    by (simp_all add: example_app_def example_job_def twin_files_def)
  have m: "missing_credential (analysis_of roomy_env (jobContext ?a) (files ?a) (world_of empty_storage) 0)"
    by (simp add: g an missing_credential_def)
  note st = stopped_at_first [OF g(1,2,3) m, of 1 2]
  have "map status (batchItems (app (snd (handleBatchAnalyze roomy_env 1 2 ?a (world_of empty_storage)))))
     = [analyzing, analyzing]"
    unfolding st(2) g(5)
    by (simp add: mark_analyzing_def initialItems_of_def twin_files_def example_file_def twin_file_def)
  with st(1) an show ?thesis
    by (simp add: example_app_facts) (simp add: twin_files_def example_file_def twin_file_def)
qed

text \<open>
  Claim C9, as amended. In every list that a run over files with pairwise distinct ids
  puts on display, at most one item is being analysed, and an item is being analysed only
  when the item before it is completed or in error.
\<close>

theorem one_item_analyzing_at_a_time:
  assumes "distinct (map file_id (files a))"
    and "handleBatchAnalyze e t1 t2 a w = (out, r)"
  shows "\<forall>s \<in> set (batch_trace r).
           length (filter (\<lambda>p. status p = analyzing) s) \<le> 1 \<and>
           (\<forall>j. Suc j < length s \<longrightarrow> status (s ! Suc j) = analyzing \<longrightarrow>
                status (s ! j) = completed \<or> status (s ! j) = error)"
proof (cases "hasApiKey a \<and> files a \<noteq> [] \<and> description (jobContext a) \<noteq> []")
  case True
  then have g: "hasApiKey a" "files a \<noteq> []" "description (jobContext a) \<noteq> []" by simp_all
  have "\<forall>s \<in> set (batch_trace r). sequential s"
    using handleBatchAnalyze_lists(1) [OF g assms] by blast
  then show ?thesis
    using sequential_one_analyzing sequential_order
    by (fastforce simp: terminal_def)
next
  case False
  then have "batch_trace (snd (handleBatchAnalyze e t1 t2 a w)) = []"
    by (intro handleBatchAnalyze_rejected(2)) blast
  then show ?thesis by (simp add: assms(2))
qed

theorem one_item_analyzing_at_a_time_witness:
  "distinct (map file_id (files (example_app two_files))) \<and>
   length (batch_trace (snd (handleBatchAnalyze flaky_env 1 2 (example_app two_files) keyed_world))) = 5 \<and>
   list_all (\<lambda>s. length (filter (\<lambda>p. status p = analyzing) s) \<le> 1)
     (batch_trace (snd (handleBatchAnalyze flaky_env 1 2 (example_app two_files) keyed_world)))"
proof -
  let ?run = "handleBatchAnalyze flaky_env 1 2 (example_app two_files) keyed_world"
  have d: "distinct (map file_id (files (example_app two_files)))"
    by (simp add: example_app_facts example_ids)
  have run: "?run = (fst ?run, snd ?run)" by simp
  from finish_run_result(4) [of flaky_env 1 2 example_job _ "fst ?run" "snd ?run"] flaky_run(1,3)
  have len: "length (batch_trace (snd ?run)) = 5"
    by (metis prod.collapse)
  from one_item_analyzing_at_a_time [OF d run] show ?thesis
    using d len by (simp add: list_all_iff)
qed

text \<open>
  The claim as first stated speaks of any batch. When two files share an id, the update
  that marks the first item as being analysed marks both: the second list that the run
  puts on display has two items under analysis at once.
\<close>

theorem two_items_analyzing_counterexample:
  "hasApiKey (example_app twin_files) \<and>
   files (example_app twin_files) = [example_file, twin_file] \<and>
   file_id example_file = ''f1'' \<and> file_id twin_file = ''f1'' \<and>
   description (jobContext (example_app twin_files)) = ''Builds compilers'' \<and>
   length (batch_trace (snd (handleBatchAnalyze flaky_env 1 2 (example_app twin_files) keyed_world))) = 5 \<and>
   map status (batch_trace (snd (handleBatchAnalyze flaky_env 1 2 (example_app twin_files) keyed_world)) ! 1)
     = [analyzing, analyzing]"
  using twin_run(3,4)
  by (simp add: example_app_facts twin_files_def) (simp add: example_file_def twin_file_def)

end
